theory Spec2Isabelle
  imports Complex_Main "HOL-Library.AList" "HOL-Library.Log_Nat"
begin

section \<open>Hot-Plug Heaven: the controller's ledger, its scheduler and the agent executor\<close>

text \<open>
  The development embeds \<^verbatim>\<open>src/host/controller/controller_multi.py\<close> (the controller) and
  the \<^verbatim>\<open>/allocate\<close> handler of \<^verbatim>\<open>src/vm/agent_instance.py\<close> (the agent).

  Conventions of the embedding.
  \<^item> A Python \<^verbatim>\<open>dict\<close> is an association list in insertion order: the scheduler reads
    \<^verbatim>\<open>CORE_MAP.items()\<close> and \<^verbatim>\<open>AGENTS.items()\<close> in that order and takes the last element
    of a list built from it. \<^verbatim>\<open>d[k] = v\<close> is \<open>AList.update\<close> (replace in place, or append),
    \<^verbatim>\<open>d.pop(k)\<close> is \<open>AList.delete\<close>, \<^verbatim>\<open>d.get(k)\<close> is \<open>map_of\<close>.
  \<^item> Python integers are \<open>int\<close>; \<^verbatim>\<open>total_cores\<close>, \<^verbatim>\<open>core_offset\<close> and
    \<^verbatim>\<open>cores_requested\<close> go through \<^verbatim>\<open>int(...)\<close> unchecked, so they may be negative.
  \<^item> Agent and job names are strings; \<^verbatim>\<open>time.time()\<close> is a clock value handed to the
    handler.
  \<^item> Every outbound HTTP call is an oracle of the environment (\<open>env\<close>): a call either raises
    (timeout, refused connection, malformed reply) or returns. The theorems quantify over
    all environments.
  \<^item> CPU percentages are Python floats, that is IEEE 754 binary64 values: a finite double is
    represented by its exact value, every operation rounds its exact result to the nearest
    double (ties to the even significand, overflow to an infinity), and \<^verbatim>\<open>round\<close> is
    Python 3's rounding (halves go to the even neighbour), which raises on NaN and on the
    infinities.
  \<^item> The SQLite audit log (\<^verbatim>\<open>log_db\<close>) swallows its own failures and is never read back; it
    is left out. The wall-clock prefix of an activity line is left out as well.
  \<^item> All handlers and the scheduler body run under the one lock \<^verbatim>\<open>LOCK\<close>, so each is one
    atomic step on the controller state.
\<close>

subsection \<open>Configuration\<close>

definition MIN_CORES_PER_JOB :: int where
  "MIN_CORES_PER_JOB = 1"

definition RESERVE_BUFFER :: int where
  "RESERVE_BUFFER = 0"

subsection \<open>Runtime data structures of the controller\<close>

type_synonym agent_name = string
type_synonym job_name = string
type_synonym job_key = "agent_name \<times> job_name"
type_synonym timestamp = nat

text \<open>One value of \<^verbatim>\<open>AGENTS\<close>; the field \<^verbatim>\<open>last\<close> is called \<open>last_seen\<close> here.\<close>

record agent_info =
  total_cores :: int
  endpoint :: "string option"
  last_seen :: timestamp
  offset :: int

text \<open>One entry of \<^verbatim>\<open>PENDING\<close>: the dict with keys vm, job, pid, need, ts.\<close>

record pending_request =
  r_vm :: agent_name
  r_job :: job_name
  r_pid :: int
  r_need :: int
  r_ts :: timestamp

text \<open>The lines pushed to \<^verbatim>\<open>ACTIVITY_LOG\<close>, one constructor per format string.\<close>

datatype activity =
    Act_registered agent_name int int
  | Act_queued job_name agent_name int
  | Act_completed job_name agent_name "int list"
  | Act_drop job_name agent_name
  | Act_allocated job_name agent_name "int list"
  | Act_stole "int list" job_name agent_name job_name agent_name
  | Act_allocated_after_steal job_name agent_name "int list"

record controller =
  AGENTS :: "(agent_name \<times> agent_info) list"
  CORE_MAP :: "(int \<times> job_key option) list"
  ALLOCATIONS :: "(job_key \<times> int list) list"
  JOB_REQUEST :: "(job_key \<times> int) list"
  PENDING :: "pending_request list"
  ACTIVITY_LOG :: "activity list"

definition init :: controller where
  "init = \<lparr>AGENTS = [], CORE_MAP = [], ALLOCATIONS = [], JOB_REQUEST = [],
           PENDING = [], ACTIVITY_LOG = []\<rparr>"

datatype ctl_error = UnknownAgent | NotAllocated

subsection \<open>Python floats\<close>

text \<open>
  A Python float is an IEEE 754 binary64 value. A finite one is represented by the real number
  it stands for (the sign of a zero is dropped: nothing below looks at it).
\<close>

datatype pyfloat = Finite real | PosInf | NegInf | NaN

text \<open>The exceptions the float operations below can raise.\<close>

datatype py_error = OverflowError | ValueError

text \<open>Python 3 \<^verbatim>\<open>round\<close> to an integer: to the nearest, a half to the even neighbour.\<close>

definition py_round :: "real \<Rightarrow> int" where
  "py_round x =
     (let f = \<lfloor>x\<rfloor>; d = x - of_int f
      in if d < 1 / 2 then f else if 1 / 2 < d then f + 1 else if even f then f else f + 1)"

text \<open>
  Rounding a real to the nearest double. For \<open>a > 0\<close>, \<open>binade a\<close> is the exponent \<open>e\<close> with
  \<open>2^e \<le> a < 2^(e+1)\<close>; the doubles around \<open>a\<close> are the multiples of
  \<open>quantum a = 2^(max (e - 52) (- 1074))\<close> (53 significant bits, and the fixed spacing
  \<open>2^(- 1074)\<close> of the subnormal range); a rounded magnitude of \<open>2^1024\<close> or more is an
  overflow.
\<close>

definition binade :: "real \<Rightarrow> int" where
  "binade a = (if 1 \<le> a then bitlen \<lfloor>a\<rfloor> - 1 else - bitlen (\<lceil>1 / a\<rceil> - 1))"

definition quantum :: "real \<Rightarrow> real" where
  "quantum a = 2 powi (max (binade a - 52) (- 1074))"

definition round_magnitude :: "real \<Rightarrow> real" where
  "round_magnitude a = of_int (py_round (a / quantum a)) * quantum a"

definition to_double :: "real \<Rightarrow> pyfloat" where
  "to_double x =
     (if x = 0 then Finite 0
      else if 2 powi 1024 \<le> round_magnitude \<bar>x\<bar> then (if 0 < x then PosInf else NegInf)
      else Finite (if 0 < x then round_magnitude \<bar>x\<bar> else - round_magnitude \<bar>x\<bar>))"

text \<open>\<^verbatim>\<open>x / 100.0\<close>: the divisor is a finite non-zero double.\<close>

definition float_div_100 :: "pyfloat \<Rightarrow> pyfloat" where
  "float_div_100 x =
     (case x of Finite v \<Rightarrow> to_double (v / 100) | PosInf \<Rightarrow> PosInf | NegInf \<Rightarrow> NegInf
      | NaN \<Rightarrow> NaN)"

text \<open>\<^verbatim>\<open>x * y\<close> on floats.\<close>

fun float_mul :: "pyfloat \<Rightarrow> pyfloat \<Rightarrow> pyfloat" where
  "float_mul NaN y = NaN"
| "float_mul x NaN = NaN"
| "float_mul (Finite a) (Finite b) = to_double (a * b)"
| "float_mul (Finite a) PosInf = (if a = 0 then NaN else if 0 < a then PosInf else NegInf)"
| "float_mul (Finite a) NegInf = (if a = 0 then NaN else if 0 < a then NegInf else PosInf)"
| "float_mul PosInf (Finite b) = (if b = 0 then NaN else if 0 < b then PosInf else NegInf)"
| "float_mul NegInf (Finite b) = (if b = 0 then NaN else if 0 < b then NegInf else PosInf)"
| "float_mul PosInf PosInf = PosInf"
| "float_mul PosInf NegInf = NegInf"
| "float_mul NegInf PosInf = NegInf"
| "float_mul NegInf NegInf = PosInf"

text \<open>
  The conversion of an \<^verbatim>\<open>int\<close> operand of a float operation: rounded to the nearest
  double, \<^verbatim>\<open>OverflowError\<close> when it is too large.
\<close>

definition float_of_int :: "int \<Rightarrow> py_error + pyfloat" where
  "float_of_int n =
     (case to_double (of_int n) of Finite v \<Rightarrow> Inr (Finite v) | _ \<Rightarrow> Inl OverflowError)"

text \<open>\<^verbatim>\<open>round(x)\<close> on a float: \<^verbatim>\<open>ValueError\<close> on NaN, \<^verbatim>\<open>OverflowError\<close> on an infinity.\<close>

definition float_round :: "pyfloat \<Rightarrow> py_error + int" where
  "float_round x =
     (case x of Finite v \<Rightarrow> Inr (py_round v) | NaN \<Rightarrow> Inl ValueError | _ \<Rightarrow> Inl OverflowError)"

subsection \<open>The environment: replies of the agents\<close>

text \<open>A row of an agent's \<^verbatim>\<open>/status\<close> reply.\<close>

record status_row =
  s_job :: job_name
  s_pid :: int
  s_cores :: "int list"
  s_cpu_percent :: pyfloat

text \<open>
  \<open>status_rpc a ep\<close>: the reply to \<^verbatim>\<open>GET ep/status\<close> made for agent \<open>a\<close> while the
  candidates are collected, \<open>None\<close> when the call raises.
  \<open>refetch_rpc i ep\<close>: the same call made for the \<open>i\<close>-th stolen entry.
  \<open>release_rpc i ep job keep\<close>: whether \<^verbatim>\<open>POST ep/release\<close> returned (any HTTP status)
  rather than raised.
  \<open>allocate_rpc ep job pid cores\<close>: whether \<^verbatim>\<open>POST ep/allocate\<close> returned status 200 with
  \<^verbatim>\<open>ok\<close> true.
\<close>

record env =
  status_rpc :: "agent_name \<Rightarrow> string \<Rightarrow> status_row list option"
  refetch_rpc :: "nat \<Rightarrow> string \<Rightarrow> status_row list option"
  release_rpc :: "nat \<Rightarrow> string \<Rightarrow> job_name \<Rightarrow> int list \<Rightarrow> bool"
  allocate_rpc :: "string \<Rightarrow> job_name \<Rightarrow> int \<Rightarrow> int list \<Rightarrow> bool"

subsection \<open>Utility functions\<close>

text \<open>\<^verbatim>\<open>push_activity\<close>: newest first, at most 400 lines.\<close>

definition push_activity :: "activity \<Rightarrow> controller \<Rightarrow> controller" where
  "push_activity a s =
     (let l = a # ACTIVITY_LOG s
      in s\<lparr>ACTIVITY_LOG := (if length l > 400 then butlast l else l)\<rparr>)"

text \<open>\<^verbatim>\<open>d.setdefault(k, v)\<close>: a key already present keeps its value and its place.\<close>

definition setdefault :: "'k \<Rightarrow> 'v \<Rightarrow> ('k \<times> 'v) list \<Rightarrow> ('k \<times> 'v) list" where
  "setdefault k v d = (if k \<in> fst ` set d then d else d @ [(k, v)])"

text \<open>\<^verbatim>\<open>range(a, b)\<close> over Python integers.\<close>

definition py_range :: "int \<Rightarrow> int \<Rightarrow> int list" where
  "py_range a b = [a..b - 1]"

text \<open>The slice \<^verbatim>\<open>xs[:n]\<close>: a negative \<open>n\<close> drops the last \<open>-n\<close> elements.\<close>

definition py_take :: "int \<Rightarrow> 'a list \<Rightarrow> 'a list" where
  "py_take n xs = (if 0 \<le> n then take (nat n) xs else take (length xs - nat (- n)) xs)"

text \<open>\<^verbatim>\<open>CORE_MAP.get(g) is None\<close>: the key is absent or maps to \<^verbatim>\<open>None\<close>.\<close>

definition is_free :: "(int \<times> job_key option) list \<Rightarrow> int \<Rightarrow> bool" where
  "is_free m g = (case map_of m g of None \<Rightarrow> True | Some None \<Rightarrow> True | Some (Some k) \<Rightarrow> False)"

text \<open>\<^verbatim>\<open>[g for g,m in CORE_MAP.items() if m == (a, j)]\<close>.\<close>

definition idxs_of :: "(int \<times> job_key option) list \<Rightarrow> job_key \<Rightarrow> int list" where
  "idxs_of m k = map fst (filter (\<lambda>(g, v). v = Some k) m)"

text \<open>\<^verbatim>\<open>for c in cores: CORE_MAP[c] = v\<close>.\<close>

fun set_cores :: "job_key option \<Rightarrow> int list \<Rightarrow> (int \<times> job_key option) list
    \<Rightarrow> (int \<times> job_key option) list" where
  "set_cores v [] m = m"
| "set_cores v (c # cs) m = set_cores v cs (AList.update c v m)"

subsection \<open>Flask endpoints\<close>

text \<open>
  \<^verbatim>\<open>/register\<close>. The payload fields other than the name are optional:
  \<^verbatim>\<open>data.get("endpoint")\<close>, \<^verbatim>\<open>int(data.get("total_cores", 1))\<close>,
  \<^verbatim>\<open>int(data.get("core_offset", 0))\<close>.
\<close>

fun seed_range :: "int list \<Rightarrow> (int \<times> job_key option) list \<Rightarrow> (int \<times> job_key option) list" where
  "seed_range [] m = m"
| "seed_range (g # gs) m = seed_range gs (setdefault g None m)"

definition register :: "timestamp \<Rightarrow> agent_name \<Rightarrow> string option \<Rightarrow> int option \<Rightarrow> int option
    \<Rightarrow> controller \<Rightarrow> controller" where
  "register now agent ep total_opt offset_opt s =
     (let total = (case total_opt of None \<Rightarrow> 1 | Some t \<Rightarrow> t);
          off = (case offset_opt of None \<Rightarrow> 0 | Some x \<Rightarrow> x);
          s1 = s\<lparr>AGENTS := AList.update agent
                    \<lparr>total_cores = total, endpoint = ep, last_seen = now, offset = off\<rparr>
                    (AGENTS s),
                 CORE_MAP := seed_range (py_range off (off + total)) (CORE_MAP s)\<rparr>
      in push_activity (Act_registered agent off total) s1)"

text \<open>\<^verbatim>\<open>/request\<close>, with \<^verbatim>\<open>need = int(data.get("cores_requested", 1))\<close>.\<close>

definition request_alloc :: "timestamp \<Rightarrow> agent_name \<Rightarrow> job_name \<Rightarrow> int \<Rightarrow> int option
    \<Rightarrow> controller \<Rightarrow> (ctl_error + unit) \<times> controller" where
  "request_alloc now v j p need_opt s =
     (let n = (case need_opt of None \<Rightarrow> 1 | Some x \<Rightarrow> x);
          entry = \<lparr>r_vm = v, r_job = j, r_pid = p, r_need = n, r_ts = now\<rparr>
      in if map_of (AGENTS s) v = None then (Inl UnknownAgent, s)
         else (Inr (),
               push_activity (Act_queued j v n)
                 (s\<lparr>PENDING := PENDING s @ [entry],
                    JOB_REQUEST := AList.update (v, j) n (JOB_REQUEST s)\<rparr>)))"

text \<open>
  The outbound \<^verbatim>\<open>/release\<close> call of \<^verbatim>\<open>complete\<close>, inside \<^verbatim>\<open>try ... except Exception: pass\<close>:
  a missing agent (\<^verbatim>\<open>KeyError\<close>), a missing endpoint (\<^verbatim>\<open>TypeError\<close>) and a failed call are
  all swallowed, and the reply is not looked at. The result says whether the call returned.
\<close>

definition complete_release :: "env \<Rightarrow> controller \<Rightarrow> agent_name \<Rightarrow> job_name \<Rightarrow> bool" where
  "complete_release e s v j =
     (case map_of (AGENTS s) v of
        None \<Rightarrow> False
      | Some info \<Rightarrow>
          (case endpoint info of None \<Rightarrow> False | Some ep \<Rightarrow> release_rpc e 0 ep j []))"

text \<open>\<^verbatim>\<open>/complete\<close>.\<close>

definition complete :: "env \<Rightarrow> agent_name \<Rightarrow> job_name \<Rightarrow> controller
    \<Rightarrow> (ctl_error + int list) \<times> controller" where
  "complete e v j s =
     (let key = (v, j)
      in case map_of (ALLOCATIONS s) key of
           None \<Rightarrow> (Inl NotAllocated, s)
         | Some cores \<Rightarrow>
             (let s1 = s\<lparr>ALLOCATIONS := AList.delete key (ALLOCATIONS s)\<rparr>;
                  released = complete_release e s1 v j;
                  s2 = s1\<lparr>CORE_MAP := set_cores None cores (CORE_MAP s1),
                          JOB_REQUEST := AList.delete key (JOB_REQUEST s1)\<rparr>
              in (Inr cores, push_activity (Act_completed j v cores) s2)))"

subsection \<open>Scheduler and allocation\<close>

text \<open>
  \<^verbatim>\<open>est = max(1, int(round((cpu_percent/100.0)*allocated)))\<close>, then
  \<^verbatim>\<open>min(est, allocated)\<close>. The quotient and the product are float operations; the integer
  \<^verbatim>\<open>allocated\<close> is converted for the product.
\<close>

definition estimate_used_cores :: "pyfloat \<Rightarrow> int \<Rightarrow> py_error + int" where
  "estimate_used_cores cpu_percent allocated =
     (case float_of_int allocated of
        Inl err \<Rightarrow> Inl err
      | Inr fa \<Rightarrow>
          (case float_round (float_mul (float_div_100 cpu_percent) fa) of
             Inl err \<Rightarrow> Inl err
           | Inr r \<Rightarrow> Inr (min (max 1 r) allocated)))"

text \<open>
  \<^verbatim>\<open>_assign_and_record\<close>. An unknown agent, a missing endpoint and a failed or refused
  call all end in \<^verbatim>\<open>return False\<close> with nothing written.
\<close>

definition assign_and_record :: "env \<Rightarrow> agent_name \<Rightarrow> job_name \<Rightarrow> int \<Rightarrow> int list
    \<Rightarrow> controller \<Rightarrow> bool \<times> controller" where
  "assign_and_record e agent j p cores s =
     (case map_of (AGENTS s) agent of
        None \<Rightarrow> (False, s)
      | Some info \<Rightarrow>
          (case endpoint info of
             None \<Rightarrow> (False, s)
           | Some ep \<Rightarrow>
               if allocate_rpc e ep j p cores then
                 (True,
                  s\<lparr>CORE_MAP := set_cores (Some (agent, j)) cores (CORE_MAP s),
                    ALLOCATIONS := AList.update (agent, j)
                       ((case map_of (ALLOCATIONS s) (agent, j) of None \<Rightarrow> [] | Some old \<Rightarrow> old)
                          @ cores)
                       (ALLOCATIONS s),
                    JOB_REQUEST := AList.update (agent, j)
                       (case map_of (JOB_REQUEST s) (agent, j) of
                          None \<Rightarrow> int (length cores) | Some n \<Rightarrow> n)
                       (JOB_REQUEST s)\<rparr>)
               else (False, s)))"

text \<open>An entry of \<^verbatim>\<open>candidates\<close> and an entry of \<^verbatim>\<open>stolen_indices\<close>.\<close>

record candidate =
  c_spare :: int
  c_agent :: agent_name
  c_job :: job_name
  c_idxs :: "int list"

record stolen =
  src_agent :: agent_name
  src_job :: job_name
  st_idxs :: "int list"

text \<open>
  The body of \<^verbatim>\<open>for j in resp.get("jobs", [])\<close> for one row: the candidates it appends, or
  the exception the estimate raises.
\<close>

definition row_candidates :: "(int \<times> job_key option) list \<Rightarrow> agent_name \<Rightarrow> status_row
    \<Rightarrow> py_error + candidate list" where
  "row_candidates m a_name row =
     (let allocated = int (length (idxs_of m (a_name, s_job row)))
      in if allocated \<le> MIN_CORES_PER_JOB then Inr []
         else
           (case estimate_used_cores (s_cpu_percent row) allocated of
              Inl err \<Rightarrow> Inl err
            | Inr used \<Rightarrow>
                (let spare = allocated - used
                 in if spare \<ge> 1 \<and> allocated - 1 \<ge> MIN_CORES_PER_JOB
                    then Inr [\<lparr>c_spare = spare, c_agent = a_name, c_job = s_job row,
                               c_idxs = idxs_of m (a_name, s_job row)\<rparr>]
                    else Inr [])))"

text \<open>
  The loop over the rows, inside \<^verbatim>\<open>try ... except Exception: continue\<close>: an exception ends
  the loop of this agent, and the candidates appended before it stay.
\<close>

fun rows_candidates :: "(int \<times> job_key option) list \<Rightarrow> agent_name \<Rightarrow> status_row list
    \<Rightarrow> candidate list" where
  "rows_candidates m a_name [] = []"
| "rows_candidates m a_name (row # rows) =
     (case row_candidates m a_name row of
        Inl err \<Rightarrow> []
      | Inr cs \<Rightarrow> cs @ rows_candidates m a_name rows)"

text \<open>
  The body of \<^verbatim>\<open>for a_name, info in AGENTS.items()\<close>; a missing endpoint or a failed status
  call skips the agent.
\<close>

definition agent_candidates :: "env \<Rightarrow> (int \<times> job_key option) list \<Rightarrow> agent_name \<times> agent_info
    \<Rightarrow> candidate list" where
  "agent_candidates e m entry =
     (case endpoint (snd entry) of
        None \<Rightarrow> []
      | Some ep \<Rightarrow>
          (case status_rpc e (fst entry) ep of
             None \<Rightarrow> []
           | Some rows \<Rightarrow> rows_candidates m (fst entry) rows))"

definition build_candidates :: "env \<Rightarrow> controller \<Rightarrow> candidate list" where
  "build_candidates e s = concat (map (agent_candidates e (CORE_MAP s)) (AGENTS s))"

text \<open>
  \<^verbatim>\<open>while need_remaining > 0 and candidates\<close>: pop the first candidate, take the last
  element of its index list. (Every candidate has at least two indices, see
  \<open>row_candidates\<close>, so \<^verbatim>\<open>c["idxs"][-1]\<close> never raises.)
\<close>

fun steal_loop :: "int \<Rightarrow> candidate list \<Rightarrow> stolen list \<Rightarrow> int \<times> stolen list" where
  "steal_loop nr [] acc = (nr, acc)"
| "steal_loop nr (c # cs) acc =
     (if nr > 0
      then steal_loop (nr - 1) cs
             (acc @ [\<lparr>src_agent = c_agent c, src_job = c_job c, st_idxs = [last (c_idxs c)]\<rparr>])
      else (nr, acc))"

text \<open>\<^verbatim>\<open>candidates.sort(key=lambda x: x["spare"], reverse=True)\<close>: stable, descending.\<close>

definition plan_steal :: "env \<Rightarrow> controller \<Rightarrow> int \<Rightarrow> int list \<Rightarrow> int \<times> stolen list" where
  "plan_steal e s n free_slots =
     steal_loop (n - int (length free_slots))
       (sort_key (\<lambda>c. - c_spare c) (build_candidates e s)) []"

text \<open>The last row of the reply that names the job gives \<^verbatim>\<open>current\<close>.\<close>

definition current_cores :: "status_row list \<Rightarrow> job_name \<Rightarrow> int list" where
  "current_cores rows j = foldl (\<lambda>cur row. if s_job row = j then s_cores row else cur) [] rows"

text \<open>
  The body of \<^verbatim>\<open>for s in stolen_indices\<close>, inside \<^verbatim>\<open>try ... except Exception: pass\<close>:
  the slot is freed only when the status and release calls both returned.
\<close>

definition commit_one :: "env \<Rightarrow> job_name \<Rightarrow> agent_name \<Rightarrow> nat \<Rightarrow> stolen \<Rightarrow> controller
    \<Rightarrow> controller" where
  "commit_one e j v i st s =
     (case map_of (AGENTS s) (src_agent st) of
        None \<Rightarrow> s
      | Some info \<Rightarrow>
          (case endpoint info of
             None \<Rightarrow> s
           | Some ep \<Rightarrow>
               (case refetch_rpc e i ep of
                  None \<Rightarrow> s
                | Some rows \<Rightarrow>
                    (let current = current_cores rows (src_job st);
                         new_cores = filter (\<lambda>c. c \<notin> set (st_idxs st)) current
                     in if release_rpc e i ep (src_job st) new_cores
                        then push_activity
                               (Act_stole (st_idxs st) (src_job st) (src_agent st) j v)
                               (s\<lparr>CORE_MAP := set_cores None (st_idxs st) (CORE_MAP s)\<rparr>)
                        else s))))"

fun commit_steals :: "env \<Rightarrow> job_name \<Rightarrow> agent_name \<Rightarrow> nat \<Rightarrow> stolen list \<Rightarrow> controller
    \<Rightarrow> controller" where
  "commit_steals e j v i [] s = s"
| "commit_steals e j v i (st # sts) s = commit_steals e j v (Suc i) sts (commit_one e j v i st s)"

text \<open>The part of the loop body after \<^verbatim>\<open># conservative steal\<close>.\<close>

definition steal_and_assign :: "env \<Rightarrow> pending_request \<Rightarrow> int list \<Rightarrow> int list \<Rightarrow> controller
    \<Rightarrow> controller" where
  "steal_and_assign e req agent_slots free_slots s =
     (case plan_steal e s (r_need req) free_slots of
        (need_remaining, stolen_indices) \<Rightarrow>
          if need_remaining \<le> 0 \<and> stolen_indices \<noteq> [] then
            (let s1 = commit_steals e (r_job req) (r_vm req) 0 stolen_indices s;
                 free2 = filter (is_free (CORE_MAP s1)) agent_slots;
                 pick = py_take (r_need req) free2
             in if int (length pick) = r_need req then
                  (case assign_and_record e (r_vm req) (r_job req) (r_pid req) pick s1 of
                     (ok, s2) \<Rightarrow>
                       if ok then
                         (push_activity (Act_allocated_after_steal (r_job req) (r_vm req) pick) s2)
                           \<lparr>PENDING := remove1 req (PENDING s2)\<rparr>
                       else s2)
                else s1)
          else s)"

text \<open>
  \<^verbatim>\<open>agent_slots = list(range(offset, offset+total))\<close> and
  \<^verbatim>\<open>free_slots = [g for g in agent_slots if CORE_MAP.get(g) is None]\<close>.
\<close>

definition agent_slots_of :: "agent_info \<Rightarrow> int list" where
  "agent_slots_of info = py_range (offset info) (offset info + total_cores info)"

definition free_slots_of :: "(int \<times> job_key option) list \<Rightarrow> agent_info \<Rightarrow> int list" where
  "free_slots_of m info = filter (is_free m) (agent_slots_of info)"

text \<open>The body of \<^verbatim>\<open>for req in list(PENDING)\<close>: one scheduling attempt.\<close>

definition schedule_request :: "env \<Rightarrow> pending_request \<Rightarrow> controller \<Rightarrow> controller" where
  "schedule_request e req s =
     (case map_of (AGENTS s) (r_vm req) of
        None \<Rightarrow>
          (push_activity (Act_drop (r_job req) (r_vm req)) s)\<lparr>PENDING := remove1 req (PENDING s)\<rparr>
      | Some info \<Rightarrow>
          (let agent_slots = agent_slots_of info;
               free_slots = free_slots_of (CORE_MAP s) info
           in if int (length free_slots) \<ge> r_need req + RESERVE_BUFFER then
                (let pick = py_take (r_need req) free_slots
                 in case assign_and_record e (r_vm req) (r_job req) (r_pid req) pick s of
                      (ok, s1) \<Rightarrow>
                        if ok then
                          (push_activity (Act_allocated (r_job req) (r_vm req) pick) s1)
                            \<lparr>PENDING := remove1 req (PENDING s1)\<rparr>
                        else steal_and_assign e req agent_slots free_slots s1)
              else steal_and_assign e req agent_slots free_slots s))"

text \<open>
  One turn of \<^verbatim>\<open>while True\<close>: the requests of the snapshot \<^verbatim>\<open>list(PENDING)\<close> in order, the
  \<open>i\<close>-th one against the environment \<open>es i\<close>.
\<close>

fun run_requests :: "(nat \<Rightarrow> env) \<Rightarrow> nat \<Rightarrow> pending_request list \<Rightarrow> controller \<Rightarrow> controller" where
  "run_requests es i [] s = s"
| "run_requests es i (req # reqs) s = run_requests es (Suc i) reqs (schedule_request (es i) req s)"

definition scheduler_pass :: "(nat \<Rightarrow> env) \<Rightarrow> controller \<Rightarrow> controller" where
  "scheduler_pass es s = run_requests es 0 (PENDING s) s"

subsection \<open>The agent's allocate handler\<close>

text \<open>
  \<^verbatim>\<open>jobs\<close> of \<^verbatim>\<open>agent_instance.py\<close>, and next to it the affinity masks the operating system
  holds. \<^verbatim>\<open>os.sched_setaffinity\<close> is a call into the operating system: \<open>os_accepts pid mask\<close>
  says whether it returns (then the mask of \<open>pid\<close> is \<open>mask\<close>) or raises (then nothing
  changes).
\<close>

record job_info =
  j_pid :: int
  j_cores :: "int list"

record agent_state =
  jobs :: "(job_name \<times> job_info) list"
  affinity :: "int \<rightharpoonup> int set"

datatype agent_error = BindError

definition sched_setaffinity :: "(int \<Rightarrow> int set \<Rightarrow> bool) \<Rightarrow> int \<Rightarrow> int set \<Rightarrow> (int \<rightharpoonup> int set)
    \<Rightarrow> (int \<rightharpoonup> int set) option" where
  "sched_setaffinity os_accepts p cpus aff =
     (if os_accepts p cpus then Some (aff(p \<mapsto> cpus)) else None)"

definition allocate :: "(int \<Rightarrow> int set \<Rightarrow> bool) \<Rightarrow> job_name \<Rightarrow> int \<Rightarrow> int list \<Rightarrow> agent_state
    \<Rightarrow> (agent_error + job_name \<times> int list) \<times> agent_state" where
  "allocate os_accepts j p cores a =
     (case sched_setaffinity os_accepts p (set cores) (affinity a) of
        None \<Rightarrow> (Inl BindError, a)
      | Some aff \<Rightarrow>
          (Inr (j, cores),
           a\<lparr>affinity := aff,
             jobs := AList.update j \<lparr>j_pid = p, j_cores = cores\<rparr> (jobs a)\<rparr>))"

subsection \<open>The specification's wording of the estimator\<close>



subsection \<open>Concrete environments and runs\<close>

text \<open>An environment in which every call to an agent raises.\<close>

definition env_unreachable :: env where
  "env_unreachable =
     \<lparr>status_rpc = (\<lambda>a ep. None), refetch_rpc = (\<lambda>i ep. None),
      release_rpc = (\<lambda>i ep j keep. False), allocate_rpc = (\<lambda>ep j p cores. False)\<rparr>"

text \<open>
  An environment in which every call succeeds and the agent reports the job \<^verbatim>\<open>train\<close> on
  cores 0 to 3 at 50 percent CPU.
\<close>

definition train_row :: status_row where
  "train_row = \<lparr>s_job = ''train'', s_pid = 100, s_cores = [0, 1, 2, 3],
                 s_cpu_percent = Finite 50\<rparr>"

definition env_train :: env where
  "env_train =
     \<lparr>status_rpc = (\<lambda>a ep. Some [train_row]), refetch_rpc = (\<lambda>i ep. Some [train_row]),
      release_rpc = (\<lambda>i ep j keep. True), allocate_rpc = (\<lambda>ep j p cores. True)\<rparr>"

text \<open>Agent \<^verbatim>\<open>vm1\<close> registers with offset 0 and 4 cores.\<close>

definition vm1_registered :: controller where
  "vm1_registered = register 0 ''vm1'' (Some ''http://10.0.0.2:6001'') (Some 4) (Some 0) init"

text \<open>Ten seconds later its heartbeat arrives: a registration that carries the name only.\<close>

definition heartbeat_scenario :: controller where
  "heartbeat_scenario = register 10 ''vm1'' None None None vm1_registered"

text \<open>A ledger in which \<^verbatim>\<open>train\<close> on \<^verbatim>\<open>vm1\<close> holds the cores 0 and 1.\<close>

definition two_core_ledger :: controller where
  "two_core_ledger =
     \<lparr>AGENTS = [(''vm1'', \<lparr>total_cores = 4, endpoint = Some ''http://10.0.0.2:6001'',
                            last_seen = 0, offset = 0\<rparr>)],
      CORE_MAP = [(0, Some (''vm1'', ''train'')), (1, Some (''vm1'', ''train'')),
                  (2, None), (3, None)],
      ALLOCATIONS = [((''vm1'', ''train''), [0, 1])],
      JOB_REQUEST = [((''vm1'', ''train''), 2)],
      PENDING = [], ACTIVITY_LOG = []\<rparr>"

text \<open>An agent that tracks no job yet, an operating system that accepts every mask and one
  that refuses every mask.\<close>

definition idle_agent :: agent_state where
  "idle_agent = \<lparr>jobs = [], affinity = Map.empty\<rparr>"

definition os_accepts_all :: "int \<Rightarrow> int set \<Rightarrow> bool" where
  "os_accepts_all p cpus = True"

definition os_refuses_all :: "int \<Rightarrow> int set \<Rightarrow> bool" where
  "os_refuses_all p cpus = False"

text \<open>
  The specification's first scenario: on \<^verbatim>\<open>vm1\<close> (offset 0, 4 cores, all free) the job
  \<^verbatim>\<open>train\<close> asks for 4 cores, and one scheduling pass runs.
\<close>

definition train_request :: pending_request where
  "train_request = \<lparr>r_vm = ''vm1'', r_job = ''train'', r_pid = 100, r_need = 4, r_ts = 1\<rparr>"

definition train_queued :: controller where
  "train_queued = snd (request_alloc 1 ''vm1'' ''train'' 100 (Some 4) vm1_registered)"

definition train_admitted :: controller where
  "train_admitted = scheduler_pass (\<lambda>i. env_train) train_queued"

text \<open>The same request with \<^verbatim>\<open>cores_requested = -1\<close>.\<close>

definition neg_request :: pending_request where
  "neg_request = \<lparr>r_vm = ''vm1'', r_job = ''train'', r_pid = 100, r_need = - 1, r_ts = 1\<rparr>"

definition neg_queued :: controller where
  "neg_queued = snd (request_alloc 1 ''vm1'' ''train'' 100 (Some (- 1)) vm1_registered)"

text \<open>
  The specification's second scenario: with \<^verbatim>\<open>train\<close> holding the four cores of \<^verbatim>\<open>vm1\<close>
  and reporting 50 percent CPU, the job \<^verbatim>\<open>infer\<close> asks for 1 core, and one pass runs.
\<close>

definition infer_request :: pending_request where
  "infer_request = \<lparr>r_vm = ''vm1'', r_job = ''infer'', r_pid = 101, r_need = 1, r_ts = 2\<rparr>"

definition infer_queued :: controller where
  "infer_queued = snd (request_alloc 2 ''vm1'' ''infer'' 101 (Some 1) train_admitted)"

definition infer_admitted :: controller where
  "infer_admitted = scheduler_pass (\<lambda>i. env_train) infer_queued"





subsection \<open>The capacity sum and runs without capacity changes\<close>

text \<open>
  The specification's sum of the sizes of the allocations of one agent,
  \<open>\<Sum>j. |Allocation[(a, j)]|\<close>, read off the allocation table.
\<close>

definition allocated_sum :: "controller \<Rightarrow> agent_name \<Rightarrow> int" where
  "allocated_sum s a =
     sum_list (map (\<lambda>(k, cores). int (length cores))
                   (filter (\<lambda>(k, cores). fst k = a) (ALLOCATIONS s)))"

text \<open>
  The steal plan of one scheduling attempt, as \<open>schedule_request\<close> computes it, and
  whether the attempt goes on to free the planned slots (the test
  \<^verbatim>\<open>need_remaining <= 0 and stolen_indices\<close>).
\<close>

definition attempt_plan :: "env \<Rightarrow> pending_request \<Rightarrow> controller \<Rightarrow> int \<times> stolen list" where
  "attempt_plan e req s =
     (case map_of (AGENTS s) (r_vm req) of
        None \<Rightarrow> (0, [])
      | Some info \<Rightarrow> plan_steal e s (r_need req) (free_slots_of (CORE_MAP s) info))"

definition steals :: "env \<Rightarrow> pending_request \<Rightarrow> controller \<Rightarrow> bool" where
  "steals e req s = (fst (attempt_plan e req s) \<le> 0 \<and> snd (attempt_plan e req s) \<noteq> [])"

text \<open>
  The states reached from the initial one by
  \<^item> registrations with a non-negative \<^verbatim>\<open>total_cores\<close> whose range covers the range the
    agent had before (a first registration, an identical one, a grown range),
  \<^item> requests and completions,
  \<^item> scheduling attempts that free no victim's slot (direct admission, or no admission).
  A scheduling pass is a sequence of attempts.
\<close>

inductive stable_run :: "controller \<Rightarrow> bool" where
  start: "stable_run init"
| registered:
    "stable_run s \<Longrightarrow>
     0 \<le> (case total_opt of None \<Rightarrow> 1 | Some t \<Rightarrow> t) \<Longrightarrow>
     (\<And>info. map_of (AGENTS s) a = Some info \<Longrightarrow>
        set (agent_slots_of info)
          \<subseteq> set (py_range (case offset_opt of None \<Rightarrow> 0 | Some x \<Rightarrow> x)
                  ((case offset_opt of None \<Rightarrow> 0 | Some x \<Rightarrow> x)
                     + (case total_opt of None \<Rightarrow> 1 | Some t \<Rightarrow> t)))) \<Longrightarrow>
     stable_run (register now a ep total_opt offset_opt s)"
| requested: "stable_run s \<Longrightarrow> stable_run (snd (request_alloc now v j p n s))"
| completed: "stable_run s \<Longrightarrow> stable_run (snd (complete e v j s))"
| attempted: "stable_run s \<Longrightarrow> \<not> steals e req s \<Longrightarrow> stable_run (schedule_request e req s)"

text \<open>
  What holds of the ledger in such runs: the allocation table has one entry per key, each
  list is duplicate-free and all its slots are Bound to its key, every Bound slot lies in
  the range of its agent, and no agent has a negative \<^verbatim>\<open>total_cores\<close>.
\<close>

definition ledger_inv :: "controller \<Rightarrow> bool" where
  "ledger_inv s \<longleftrightarrow>
     distinct (map fst (ALLOCATIONS s))
     \<and> (\<forall>k cores. map_of (ALLOCATIONS s) k = Some cores \<longrightarrow>
           distinct cores \<and> (\<forall>g \<in> set cores. map_of (CORE_MAP s) g = Some (Some k)))
     \<and> (\<forall>g a j. map_of (CORE_MAP s) g = Some (Some (a, j)) \<longrightarrow>
           (\<exists>info. map_of (AGENTS s) a = Some info \<and> g \<in> set (agent_slots_of info)))
     \<and> (\<forall>a info. map_of (AGENTS s) a = Some info \<longrightarrow> 0 \<le> total_cores info)"

text \<open>After the first scenario, \<^verbatim>\<open>vm1\<close> registers again, now with 2 cores.\<close>

definition shrunk :: controller where
  "shrunk = register 20 ''vm1'' (Some ''http://10.0.0.2:6001'') (Some 2) (Some 0) train_admitted"

subsection \<open>Allocations and the consistent ledger\<close>








section \<open>Properties\<close>

subsection \<open>Auxiliary facts\<close>

lemma map_of_set_cores:
  "map_of (set_cores v cs m) g = (if g \<in> set cs then Some v else map_of m g)"
  by (induction cs arbitrary: m) (auto simp: update_conv')

lemma push_activity_fields [simp]:
  "AGENTS (push_activity a s) = AGENTS s"
  "CORE_MAP (push_activity a s) = CORE_MAP s"
  "ALLOCATIONS (push_activity a s) = ALLOCATIONS s"
  "JOB_REQUEST (push_activity a s) = JOB_REQUEST s"
  "PENDING (push_activity a s) = PENDING s"
  by (simp_all add: push_activity_def Let_def)











lemma quantum_pos [simp]: "0 < quantum a"
  by (simp add: quantum_def)

lemma quantum_nonneg [simp]: "0 \<le> quantum a"
  by (simp add: quantum_def)

lemma quantum_neq0 [simp]: "quantum a \<noteq> 0"
  by (simp add: quantum_def)









lemma to_double_cases:
  "to_double x = Finite 0 \<and> x = 0
   \<or> (0 < x \<and> (to_double x = PosInf \<and> 2 powi 1024 \<le> round_magnitude x
              \<or> to_double x = Finite (round_magnitude x) \<and> round_magnitude x < 2 powi 1024))
   \<or> (x < 0 \<and> (to_double x = NegInf \<and> 2 powi 1024 \<le> round_magnitude (- x)
              \<or> to_double x = Finite (- round_magnitude (- x)) \<and> round_magnitude (- x) < 2 powi 1024))"
  by (cases "x = 0"; cases "0 < x") (auto simp: to_double_def not_le simp del: power_int_numeral)

lemma to_double_not_NaN [simp]: "to_double x \<noteq> NaN"
  using to_double_cases [of x] by auto














lemmas float_eval = estimate_used_cores_def float_of_int_def float_round_def float_div_100_def
  to_double_def round_magnitude_def quantum_def binade_def compute_bitlen py_round_def Let_def






lemma sorted_agent_slots: "sorted (agent_slots_of info)" "distinct (agent_slots_of info)"
  by (simp_all add: agent_slots_of_def py_range_def)

lemma sorted_free_slots: "sorted (free_slots_of m info)" "distinct (free_slots_of m info)"
  by (simp_all add: free_slots_of_def sorted_agent_slots sorted_wrt_filter)

lemma take_lowest:
  assumes "sorted xs" "distinct xs" "g \<in> set xs" "g \<notin> set (take n xs)" "p \<in> set (take n xs)"
  shows "p < (g::int)"
proof -
  have "g \<in> set (drop n xs)" using assms(3,4) by (metis Un_iff append_take_drop_id set_append)
  moreover have "\<forall>x\<in>set (take n xs). \<forall>y\<in>set (drop n xs). x \<le> y"
    using assms(1) sorted_append [of "take n xs" "drop n xs"] by simp
  ultimately have "p \<le> g" using assms(5) by blast
  moreover have "p \<noteq> g" using assms(4,5) by auto
  ultimately show ?thesis by simp
qed

text \<open>The states of the first scenario, evaluated.\<close>

lemma vm1_registered_eq:
  "vm1_registered =
     \<lparr>AGENTS = [(''vm1'', \<lparr>total_cores = 4, endpoint = Some ''http://10.0.0.2:6001'',
                            last_seen = 0, offset = 0\<rparr>)],
      CORE_MAP = [(0, None), (1, None), (2, None), (3, None)],
      ALLOCATIONS = [], JOB_REQUEST = [], PENDING = [],
      ACTIVITY_LOG = [Act_registered ''vm1'' 0 4]\<rparr>"
  by (simp add: vm1_registered_def register_def init_def Let_def py_range_def push_activity_def
      setdefault_def upto.simps)

lemma train_queued_eq:
  "train_queued =
     \<lparr>AGENTS = [(''vm1'', \<lparr>total_cores = 4, endpoint = Some ''http://10.0.0.2:6001'',
                            last_seen = 0, offset = 0\<rparr>)],
      CORE_MAP = [(0, None), (1, None), (2, None), (3, None)],
      ALLOCATIONS = [], JOB_REQUEST = [((''vm1'', ''train''), 4)], PENDING = [train_request],
      ACTIVITY_LOG = [Act_queued ''train'' ''vm1'' 4, Act_registered ''vm1'' 0 4]\<rparr>"
  by (simp add: train_queued_def vm1_registered_eq request_alloc_def Let_def push_activity_def
      train_request_def)

lemma train_admitted_eq:
  "train_admitted =
     \<lparr>AGENTS = [(''vm1'', \<lparr>total_cores = 4, endpoint = Some ''http://10.0.0.2:6001'',
                            last_seen = 0, offset = 0\<rparr>)],
      CORE_MAP = [(0, Some (''vm1'', ''train'')), (1, Some (''vm1'', ''train'')),
                  (2, Some (''vm1'', ''train'')), (3, Some (''vm1'', ''train''))],
      ALLOCATIONS = [((''vm1'', ''train''), [0, 1, 2, 3])],
      JOB_REQUEST = [((''vm1'', ''train''), 4)], PENDING = [],
      ACTIVITY_LOG = [Act_allocated ''train'' ''vm1'' [0, 1, 2, 3],
                      Act_queued ''train'' ''vm1'' 4, Act_registered ''vm1'' 0 4]\<rparr>"
  by (simp add: train_admitted_def train_queued_eq scheduler_pass_def schedule_request_def
      agent_slots_of_def free_slots_of_def py_range_def upto.simps is_free_def RESERVE_BUFFER_def
      py_take_def assign_and_record_def env_train_def push_activity_def train_request_def Let_def)

lemma estimate_50_4: "estimate_used_cores (Finite 50) 4 = Inr 2"
  by (simp add: float_eval)

lemma infer_queued_eq:
  "infer_queued =
     \<lparr>AGENTS = [(''vm1'', \<lparr>total_cores = 4, endpoint = Some ''http://10.0.0.2:6001'',
                            last_seen = 0, offset = 0\<rparr>)],
      CORE_MAP = [(0, Some (''vm1'', ''train'')), (1, Some (''vm1'', ''train'')),
                  (2, Some (''vm1'', ''train'')), (3, Some (''vm1'', ''train''))],
      ALLOCATIONS = [((''vm1'', ''train''), [0, 1, 2, 3])],
      JOB_REQUEST = [((''vm1'', ''train''), 4), ((''vm1'', ''infer''), 1)],
      PENDING = [infer_request],
      ACTIVITY_LOG = [Act_queued ''infer'' ''vm1'' 1, Act_allocated ''train'' ''vm1'' [0, 1, 2, 3],
                      Act_queued ''train'' ''vm1'' 4, Act_registered ''vm1'' 0 4]\<rparr>"
  by (simp add: infer_queued_def train_admitted_eq request_alloc_def Let_def push_activity_def
      infer_request_def)

lemma infer_candidates:
  "build_candidates env_train infer_queued
     = [\<lparr>c_spare = 2, c_agent = ''vm1'', c_job = ''train'', c_idxs = [0, 1, 2, 3]\<rparr>]"
  by (simp add: build_candidates_def agent_candidates_def row_candidates_def infer_queued_eq
      env_train_def train_row_def idxs_of_def MIN_CORES_PER_JOB_def estimate_50_4 Let_def)

lemma infer_plan:
  "plan_steal env_train infer_queued 1 [] 
     = (0, [\<lparr>src_agent = ''vm1'', src_job = ''train'', st_idxs = [3]\<rparr>])"
  by (simp add: plan_steal_def infer_candidates)

lemma infer_admitted_eq:
  "infer_admitted =
     \<lparr>AGENTS = [(''vm1'', \<lparr>total_cores = 4, endpoint = Some ''http://10.0.0.2:6001'',
                            last_seen = 0, offset = 0\<rparr>)],
      CORE_MAP = [(0, Some (''vm1'', ''train'')), (1, Some (''vm1'', ''train'')),
                  (2, Some (''vm1'', ''train'')), (3, Some (''vm1'', ''infer''))],
      ALLOCATIONS = [((''vm1'', ''train''), [0, 1, 2, 3]), ((''vm1'', ''infer''), [3])],
      JOB_REQUEST = [((''vm1'', ''train''), 4), ((''vm1'', ''infer''), 1)],
      PENDING = [],
      ACTIVITY_LOG = [Act_allocated_after_steal ''infer'' ''vm1'' [3],
                      Act_stole [3] ''train'' ''vm1'' ''infer'' ''vm1'',
                      Act_queued ''infer'' ''vm1'' 1, Act_allocated ''train'' ''vm1'' [0, 1, 2, 3],
                      Act_queued ''train'' ''vm1'' 4, Act_registered ''vm1'' 0 4]\<rparr>"
proof -
  have fr: "free_slots_of (CORE_MAP infer_queued)
      \<lparr>total_cores = 4, endpoint = Some ''http://10.0.0.2:6001'', last_seen = 0, offset = 0\<rparr> = []"
    by (simp add: infer_queued_eq free_slots_of_def agent_slots_of_def py_range_def upto.simps
        is_free_def)
  have ag: "map_of (AGENTS infer_queued) ''vm1''
      = Some \<lparr>total_cores = 4, endpoint = Some ''http://10.0.0.2:6001'', last_seen = 0, offset = 0\<rparr>"
    by (simp add: infer_queued_eq)
  have pe: "PENDING infer_queued = [infer_request]" by (simp add: infer_queued_eq)
  have "schedule_request env_train infer_request infer_queued = 
     steal_and_assign env_train infer_request [0,1,2,3] [] infer_queued"
    by (simp add: schedule_request_def ag fr infer_request_def RESERVE_BUFFER_def Let_def
         agent_slots_of_def py_range_def upto.simps)
  also have "\<dots> = \<lparr>AGENTS = [(''vm1'', \<lparr>total_cores = 4, endpoint = Some ''http://10.0.0.2:6001'',
                            last_seen = 0, offset = 0\<rparr>)],
      CORE_MAP = [(0, Some (''vm1'', ''train'')), (1, Some (''vm1'', ''train'')),
                  (2, Some (''vm1'', ''train'')), (3, Some (''vm1'', ''infer''))],
      ALLOCATIONS = [((''vm1'', ''train''), [0, 1, 2, 3]), ((''vm1'', ''infer''), [3])],
      JOB_REQUEST = [((''vm1'', ''train''), 4), ((''vm1'', ''infer''), 1)],
      PENDING = [],
      ACTIVITY_LOG = [Act_allocated_after_steal ''infer'' ''vm1'' [3],
                      Act_stole [3] ''train'' ''vm1'' ''infer'' ''vm1'',
                      Act_queued ''infer'' ''vm1'' 1, Act_allocated ''train'' ''vm1'' [0, 1, 2, 3],
                      Act_queued ''train'' ''vm1'' 4, Act_registered ''vm1'' 0 4]\<rparr>"
    using infer_plan
    by (simp add: steal_and_assign_def infer_request_def commit_one_def infer_queued_eq env_train_def
        current_cores_def train_row_def push_activity_def is_free_def py_take_def
        assign_and_record_def Let_def)
  finally show ?thesis by (simp add: infer_admitted_def scheduler_pass_def pe)
qed

lemma distinct_set_cores:
  "distinct (map fst m) \<Longrightarrow> distinct (map fst (set_cores v cs m))"
  by (induction cs arbitrary: m) (simp_all add: distinct_update)



lemma set_py_take: "set (py_take n xs) \<subseteq> set xs"
  by (auto simp: py_take_def dest: in_set_takeD)


lemma bound_not_free: "map_of m g = Some (Some k) \<Longrightarrow> \<not> is_free m g"
  by (simp add: is_free_def)






lemma commit_one_fields [simp]:
  "AGENTS (commit_one e j v i st s) = AGENTS s"
  "ALLOCATIONS (commit_one e j v i st s) = ALLOCATIONS s"
  "JOB_REQUEST (commit_one e j v i st s) = JOB_REQUEST s"
  "PENDING (commit_one e j v i st s) = PENDING s"
  by (simp_all add: commit_one_def Let_def split: option.splits)

lemma commit_one_core_map:
  "CORE_MAP (commit_one e j v i st s) = CORE_MAP s
   \<or> CORE_MAP (commit_one e j v i st s) = set_cores None (st_idxs st) (CORE_MAP s)"
  by (simp add: commit_one_def Let_def split: option.splits)

lemma commit_steals_fields [simp]:
  "AGENTS (commit_steals e j v i sts s) = AGENTS s"
  "ALLOCATIONS (commit_steals e j v i sts s) = ALLOCATIONS s"
  "JOB_REQUEST (commit_steals e j v i sts s) = JOB_REQUEST s"
  "PENDING (commit_steals e j v i sts s) = PENDING s"
  by (induction sts arbitrary: i s) simp_all



lemma commit_one_distinct:
  "distinct (map fst (CORE_MAP s)) \<Longrightarrow> distinct (map fst (CORE_MAP (commit_one e j v i st s)))"
  using commit_one_core_map [of e j v i st s] by (auto simp: distinct_set_cores)

lemma commit_steals_distinct:
  "distinct (map fst (CORE_MAP s)) \<Longrightarrow>
     distinct (map fst (CORE_MAP (commit_steals e j v i sts s)))"
  by (induction sts arbitrary: i s) (simp_all add: commit_one_distinct)

lemma assign_and_record_cases:
  "assign_and_record e a j p cores s = (False, s)
   \<or> assign_and_record e a j p cores s =
       (True,
        s\<lparr>CORE_MAP := set_cores (Some (a, j)) cores (CORE_MAP s),
          ALLOCATIONS := AList.update (a, j)
             ((case map_of (ALLOCATIONS s) (a, j) of None \<Rightarrow> [] | Some old \<Rightarrow> old) @ cores)
             (ALLOCATIONS s),
          JOB_REQUEST := AList.update (a, j)
             (case map_of (JOB_REQUEST s) (a, j) of None \<Rightarrow> int (length cores) | Some n \<Rightarrow> n)
             (JOB_REQUEST s)\<rparr>)"
  by (simp add: assign_and_record_def split: option.splits)


lemma assign_distinct:
  "distinct (map fst (CORE_MAP s)) \<Longrightarrow>
     distinct (map fst (CORE_MAP (snd (assign_and_record e a j p cores s))))"
  using assign_and_record_cases [of e a j p cores s] by (auto simp: distinct_set_cores)

text \<open>What one attempt does to the state, as a choice between four shapes.\<close>

lemma steal_and_assign_shape:
  "steal_and_assign e req (agent_slots_of info) fs s = s
   \<or> (\<exists>pick s1. s1 = commit_steals e (r_job req) (r_vm req) 0
                        (snd (plan_steal e s (r_need req) fs)) s
        \<and> set pick \<subseteq> set (free_slots_of (CORE_MAP s1) info)
        \<and> (steal_and_assign e req (agent_slots_of info) fs s = s1
           \<or> steal_and_assign e req (agent_slots_of info) fs s
               = snd (assign_and_record e (r_vm req) (r_job req) (r_pid req) pick s1)
           \<or> steal_and_assign e req (agent_slots_of info) fs s
               = (push_activity (Act_allocated_after_steal (r_job req) (r_vm req) pick)
                    (snd (assign_and_record e (r_vm req) (r_job req) (r_pid req) pick s1)))
                  \<lparr>PENDING := remove1 req
                     (PENDING (snd (assign_and_record e (r_vm req) (r_job req) (r_pid req) pick s1)))\<rparr>))"
proof -
  obtain nr sts where p: "plan_steal e s (r_need req) fs = (nr, sts)" by (cases "plan_steal e s (r_need req) fs")
  let ?s1 = "commit_steals e (r_job req) (r_vm req) 0 sts s"
  let ?pick = "py_take (r_need req) (free_slots_of (CORE_MAP ?s1) info)"
  have sub: "set ?pick \<subseteq> set (free_slots_of (CORE_MAP ?s1) info)" by (rule set_py_take)
  show ?thesis
  proof (cases "nr \<le> 0 \<and> sts \<noteq> []")
    case False
    then show ?thesis using p by (auto simp: steal_and_assign_def)
  next
    case True
    have "steal_and_assign e req (agent_slots_of info) fs s = ?s1
           \<or> steal_and_assign e req (agent_slots_of info) fs s
               = snd (assign_and_record e (r_vm req) (r_job req) (r_pid req) ?pick ?s1)
           \<or> steal_and_assign e req (agent_slots_of info) fs s
               = (push_activity (Act_allocated_after_steal (r_job req) (r_vm req) ?pick)
                    (snd (assign_and_record e (r_vm req) (r_job req) (r_pid req) ?pick ?s1)))
                  \<lparr>PENDING := remove1 req
                     (PENDING (snd (assign_and_record e (r_vm req) (r_job req) (r_pid req) ?pick ?s1)))\<rparr>"
      using True p
      by (simp add: steal_and_assign_def Let_def free_slots_of_def split: prod.splits)
    then show ?thesis using sub p by (metis snd_conv)
  qed
qed

lemma schedule_request_shape:
  "schedule_request e req s
      = (push_activity (Act_drop (r_job req) (r_vm req)) s)\<lparr>PENDING := remove1 req (PENDING s)\<rparr>
   \<or> (\<exists>info pick. map_of (AGENTS s) (r_vm req) = Some info
         \<and> set pick \<subseteq> set (free_slots_of (CORE_MAP s) info)
         \<and> schedule_request e req s
             = (push_activity (Act_allocated (r_job req) (r_vm req) pick)
                  (snd (assign_and_record e (r_vm req) (r_job req) (r_pid req) pick s)))
               \<lparr>PENDING := remove1 req
                  (PENDING (snd (assign_and_record e (r_vm req) (r_job req) (r_pid req) pick s)))\<rparr>)
   \<or> (\<exists>info fs. map_of (AGENTS s) (r_vm req) = Some info
         \<and> schedule_request e req s = steal_and_assign e req (agent_slots_of info) fs s)"
proof (cases "map_of (AGENTS s) (r_vm req)")
  case None
  then show ?thesis by (simp add: schedule_request_def)
next
  case (Some info)
  let ?fs = "free_slots_of (CORE_MAP s) info"
  let ?pick = "py_take (r_need req) ?fs"
  have sub: "set ?pick \<subseteq> set ?fs" by (rule set_py_take)
  show ?thesis
  proof (cases "r_need req + RESERVE_BUFFER \<le> int (length ?fs)")
    case False
    then have "schedule_request e req s = steal_and_assign e req (agent_slots_of info) ?fs s"
      using Some by (simp add: schedule_request_def Let_def)
    then show ?thesis using Some by blast
  next
    case True
    from assign_and_record_cases [of e "r_vm req" "r_job req" "r_pid req" ?pick s]
    show ?thesis
    proof
      assume f: "assign_and_record e (r_vm req) (r_job req) (r_pid req) ?pick s = (False, s)"
      then have "schedule_request e req s = steal_and_assign e req (agent_slots_of info) ?fs s"
        using Some True by (simp add: schedule_request_def Let_def)
      then show ?thesis using Some by blast
    next
      assume t: "assign_and_record e (r_vm req) (r_job req) (r_pid req) ?pick s =
        (True,
         s\<lparr>CORE_MAP := set_cores (Some (r_vm req, r_job req)) ?pick (CORE_MAP s),
           ALLOCATIONS := AList.update (r_vm req, r_job req)
              ((case map_of (ALLOCATIONS s) (r_vm req, r_job req) of None \<Rightarrow> [] | Some old \<Rightarrow> old)
                 @ ?pick) (ALLOCATIONS s),
           JOB_REQUEST := AList.update (r_vm req, r_job req)
              (case map_of (JOB_REQUEST s) (r_vm req, r_job req) of
                 None \<Rightarrow> int (length ?pick) | Some n \<Rightarrow> n) (JOB_REQUEST s)\<rparr>)"
      then have "schedule_request e req s
             = (push_activity (Act_allocated (r_job req) (r_vm req) ?pick)
                  (snd (assign_and_record e (r_vm req) (r_job req) (r_pid req) ?pick s)))
               \<lparr>PENDING := remove1 req
                  (PENDING (snd (assign_and_record e (r_vm req) (r_job req) (r_pid req) ?pick s)))\<rparr>"
        using Some True by (simp add: schedule_request_def Let_def)
      then show ?thesis using Some sub by blast
    qed
  qed
qed



lemma steal_and_assign_distinct:
  assumes "distinct (map fst (CORE_MAP s))"
  shows "distinct (map fst (CORE_MAP (steal_and_assign e req (agent_slots_of info) fs s)))"
  using steal_and_assign_shape [of e req info fs s] assms
  by (auto simp: commit_steals_distinct assign_distinct)

lemma schedule_request_distinct:
  assumes "distinct (map fst (CORE_MAP s))"
  shows "distinct (map fst (CORE_MAP (schedule_request e req s)))"
  using schedule_request_shape [of e req s] assms
  by (auto simp: steal_and_assign_distinct assign_distinct)

lemma run_requests_distinct:
  "distinct (map fst (CORE_MAP s)) \<Longrightarrow> distinct (map fst (CORE_MAP (run_requests es i reqs s)))"
  by (induction reqs arbitrary: i s) (simp_all add: schedule_request_distinct)











text \<open>The ledger in runs without steals and without capacity changes.\<close>

lemma ledger_inv_init: "ledger_inv init"
  by (simp add: ledger_inv_def init_def)

lemma map_of_setdefault_bound:
  "map_of (setdefault g' None m) g = Some (Some k) \<longleftrightarrow> map_of m g = Some (Some k)"
  by (auto simp: setdefault_def map_add_def split: option.splits)

lemma map_of_seed_range_bound:
  "map_of (seed_range gs m) g = Some (Some k) \<longleftrightarrow> map_of m g = Some (Some k)"
  by (induction gs arbitrary: m) (simp_all add: map_of_setdefault_bound)

lemma register_fields:
  "ALLOCATIONS (register now a ep t_opt o_opt s) = ALLOCATIONS s"
  "AGENTS (register now a ep t_opt o_opt s)
     = AList.update a \<lparr>total_cores = (case t_opt of None \<Rightarrow> 1 | Some t \<Rightarrow> t), endpoint = ep,
          last_seen = now, offset = (case o_opt of None \<Rightarrow> 0 | Some x \<Rightarrow> x)\<rparr> (AGENTS s)"
  "CORE_MAP (register now a ep t_opt o_opt s)
     = seed_range (py_range (case o_opt of None \<Rightarrow> 0 | Some x \<Rightarrow> x)
          ((case o_opt of None \<Rightarrow> 0 | Some x \<Rightarrow> x) + (case t_opt of None \<Rightarrow> 1 | Some t \<Rightarrow> t)))
         (CORE_MAP s)"
  by (simp_all add: register_def Let_def)

lemma ledger_inv_register:
  assumes inv: "ledger_inv s"
    and tot: "0 \<le> (case t_opt of None \<Rightarrow> 1 | Some t \<Rightarrow> t)"
    and cov: "\<And>info. map_of (AGENTS s) a = Some info \<Longrightarrow>
        set (agent_slots_of info)
          \<subseteq> set (py_range (case o_opt of None \<Rightarrow> 0 | Some x \<Rightarrow> x)
                  ((case o_opt of None \<Rightarrow> 0 | Some x \<Rightarrow> x)
                     + (case t_opt of None \<Rightarrow> 1 | Some t \<Rightarrow> t)))"
  shows "ledger_inv (register now a ep t_opt o_opt s)"
proof -
  let ?s' = "register now a ep t_opt o_opt s"
  let ?info' = "\<lparr>total_cores = (case t_opt of None \<Rightarrow> 1 | Some t \<Rightarrow> t), endpoint = ep,
          last_seen = now, offset = (case o_opt of None \<Rightarrow> 0 | Some x \<Rightarrow> x)\<rparr>"
  have cm: "\<And>g k. map_of (CORE_MAP ?s') g = Some (Some k) \<longleftrightarrow> map_of (CORE_MAP s) g = Some (Some k)"
    by (simp add: register_fields map_of_seed_range_bound)
  have ag: "map_of (AGENTS ?s') = (map_of (AGENTS s))(a \<mapsto> ?info')"
    by (simp add: register_fields update_conv')
  have i1: "distinct (map fst (ALLOCATIONS ?s'))"
    using inv by (simp add: register_fields ledger_inv_def)
  have i2: "\<forall>k cores. map_of (ALLOCATIONS ?s') k = Some cores \<longrightarrow>
           distinct cores \<and> (\<forall>g \<in> set cores. map_of (CORE_MAP ?s') g = Some (Some k))"
    using inv by (simp add: register_fields(1) cm ledger_inv_def)
  have i3: "\<forall>g a' j. map_of (CORE_MAP ?s') g = Some (Some (a', j)) \<longrightarrow>
           (\<exists>info. map_of (AGENTS ?s') a' = Some info \<and> g \<in> set (agent_slots_of info))"
  proof (intro allI impI)
    fix g a' j assume "map_of (CORE_MAP ?s') g = Some (Some (a', j))"
    then have "map_of (CORE_MAP s) g = Some (Some (a', j))" by (simp add: cm)
    then obtain info where info: "map_of (AGENTS s) a' = Some info" "g \<in> set (agent_slots_of info)"
      using inv unfolding ledger_inv_def by blast
    show "\<exists>info. map_of (AGENTS ?s') a' = Some info \<and> g \<in> set (agent_slots_of info)"
    proof (cases "a' = a")
      case True
      then have "g \<in> set (agent_slots_of ?info')"
        using cov [of info] info by (auto simp: agent_slots_of_def)
      then show ?thesis using True ag by auto
    next
      case False
      then show ?thesis using info ag by auto
    qed
  qed
  have i4: "\<forall>a' info. map_of (AGENTS ?s') a' = Some info \<longrightarrow> 0 \<le> total_cores info"
    using inv tot ag unfolding ledger_inv_def by (auto split: if_splits)
  show ?thesis unfolding ledger_inv_def using i1 i2 i3 i4 by blast
qed

lemma ledger_inv_request:
  "ledger_inv s \<Longrightarrow> ledger_inv (snd (request_alloc now v j p n s))"
  by (simp add: request_alloc_def Let_def ledger_inv_def)

lemma ledger_inv_complete:
  assumes inv: "ledger_inv s"
  shows "ledger_inv (snd (complete e v j s))"
proof (cases "map_of (ALLOCATIONS s) (v, j)")
  case None
  then show ?thesis using inv by (simp add: complete_def)
next
  case (Some cores)
  let ?s' = "snd (complete e v j s)"
  have al: "ALLOCATIONS ?s' = AList.delete (v, j) (ALLOCATIONS s)"
    and cm: "CORE_MAP ?s' = set_cores None cores (CORE_MAP s)"
    and ag: "AGENTS ?s' = AGENTS s"
    using Some by (simp_all add: complete_def Let_def)
  have own: "\<forall>g \<in> set cores. map_of (CORE_MAP s) g = Some (Some (v, j))"
    using inv Some unfolding ledger_inv_def by blast
  have i1: "distinct (map fst (ALLOCATIONS ?s'))"
    using inv by (simp add: al ledger_inv_def distinct_delete)
  have i2: "\<forall>k cs. map_of (ALLOCATIONS ?s') k = Some cs \<longrightarrow>
           distinct cs \<and> (\<forall>g \<in> set cs. map_of (CORE_MAP ?s') g = Some (Some k))"
  proof (intro allI impI)
    fix k cs assume a: "map_of (ALLOCATIONS ?s') k = Some cs"
    then have ne: "k \<noteq> (v, j)" and old: "map_of (ALLOCATIONS s) k = Some cs"
      by (auto simp: al delete_conv' split: if_splits)
    have b: "distinct cs" "\<forall>g \<in> set cs. map_of (CORE_MAP s) g = Some (Some k)"
      using inv old unfolding ledger_inv_def by blast+
    have "\<forall>g \<in> set cs. g \<notin> set cores" using b(2) own ne by auto
    then show "distinct cs \<and> (\<forall>g \<in> set cs. map_of (CORE_MAP ?s') g = Some (Some k))"
      using b by (simp add: cm map_of_set_cores)
  qed
  have i3: "\<forall>g a' j'. map_of (CORE_MAP ?s') g = Some (Some (a', j')) \<longrightarrow>
           (\<exists>info. map_of (AGENTS ?s') a' = Some info \<and> g \<in> set (agent_slots_of info))"
    using inv unfolding ledger_inv_def by (auto simp: cm ag map_of_set_cores split: if_splits)
  have i4: "\<forall>a' info. map_of (AGENTS ?s') a' = Some info \<longrightarrow> 0 \<le> total_cores info"
    using inv unfolding ledger_inv_def by (simp add: ag)
  show ?thesis unfolding ledger_inv_def using i1 i2 i3 i4 by blast
qed

lemma ledger_inv_assign:
  assumes inv: "ledger_inv s"
    and ag: "map_of (AGENTS s) a = Some info"
    and sub: "set pick \<subseteq> set (free_slots_of (CORE_MAP s) info)"
    and dp: "distinct pick"
  shows "ledger_inv (snd (assign_and_record e a j p pick s))"
proof -
  from assign_and_record_cases [of e a j p pick s]
  show ?thesis
  proof
    assume "assign_and_record e a j p pick s = (False, s)"
    then show ?thesis using inv by simp
  next
    let ?old = "case map_of (ALLOCATIONS s) (a, j) of None \<Rightarrow> [] | Some old \<Rightarrow> old"
    let ?s' = "snd (assign_and_record e a j p pick s)"
    assume t: "assign_and_record e a j p pick s =
       (True,
        s\<lparr>CORE_MAP := set_cores (Some (a, j)) pick (CORE_MAP s),
          ALLOCATIONS := AList.update (a, j) (?old @ pick) (ALLOCATIONS s),
          JOB_REQUEST := AList.update (a, j)
             (case map_of (JOB_REQUEST s) (a, j) of None \<Rightarrow> int (length pick) | Some n \<Rightarrow> n)
             (JOB_REQUEST s)\<rparr>)"
    have al: "ALLOCATIONS ?s' = AList.update (a, j) (?old @ pick) (ALLOCATIONS s)"
      and cm: "CORE_MAP ?s' = set_cores (Some (a, j)) pick (CORE_MAP s)"
      and ags: "AGENTS ?s' = AGENTS s"
      by (simp_all add: t)
    have free: "\<forall>g \<in> set pick. is_free (CORE_MAP s) g \<and> g \<in> set (agent_slots_of info)"
      using sub by (auto simp: free_slots_of_def)
    have nb: "\<And>g k. map_of (CORE_MAP s) g = Some (Some k) \<Longrightarrow> g \<notin> set pick"
      using free bound_not_free by blast
    have oldp: "distinct ?old \<and> (\<forall>g \<in> set ?old. map_of (CORE_MAP s) g = Some (Some (a, j)))"
      using inv unfolding ledger_inv_def by (auto split: option.splits)
    have i1: "distinct (map fst (ALLOCATIONS ?s'))"
      using inv by (simp add: al ledger_inv_def distinct_update)
    have i2: "\<forall>k cs. map_of (ALLOCATIONS ?s') k = Some cs \<longrightarrow>
           distinct cs \<and> (\<forall>g \<in> set cs. map_of (CORE_MAP ?s') g = Some (Some k))"
    proof (intro allI impI)
      fix k cs assume a: "map_of (ALLOCATIONS ?s') k = Some cs"
      show "distinct cs \<and> (\<forall>g \<in> set cs. map_of (CORE_MAP ?s') g = Some (Some k))"
      proof (cases "k = (a, j)")
        case True
        then have cs: "cs = ?old @ pick" using a by (simp add: al update_conv')
        have "set ?old \<inter> set pick = {}" using oldp nb by blast
        then have "distinct cs" using cs oldp dp by simp
        moreover have "\<forall>g \<in> set cs. map_of (CORE_MAP ?s') g = Some (Some k)"
          using cs oldp True by (auto simp: cm map_of_set_cores)
        ultimately show ?thesis by blast
      next
        case False
        then have old: "map_of (ALLOCATIONS s) k = Some cs" using a by (simp add: al update_conv')
        have b: "distinct cs" "\<forall>g \<in> set cs. map_of (CORE_MAP s) g = Some (Some k)"
          using inv old unfolding ledger_inv_def by blast+
        have "\<forall>g \<in> set cs. g \<notin> set pick" using b(2) nb by blast
        then show ?thesis using b by (simp add: cm map_of_set_cores)
      qed
    qed
    have i3: "\<forall>g a' j'. map_of (CORE_MAP ?s') g = Some (Some (a', j')) \<longrightarrow>
           (\<exists>info. map_of (AGENTS ?s') a' = Some info \<and> g \<in> set (agent_slots_of info))"
    proof (intro allI impI)
      fix g a' j' assume b: "map_of (CORE_MAP ?s') g = Some (Some (a', j'))"
      show "\<exists>info. map_of (AGENTS ?s') a' = Some info \<and> g \<in> set (agent_slots_of info)"
      proof (cases "g \<in> set pick")
        case True
        then have "a' = a" using b by (simp add: cm map_of_set_cores)
        then show ?thesis using True free ag ags by auto
      next
        case False
        then have "map_of (CORE_MAP s) g = Some (Some (a', j'))" using b by (simp add: cm map_of_set_cores)
        then show ?thesis using inv ags unfolding ledger_inv_def by auto
      qed
    qed
    have i4: "\<forall>a' info. map_of (AGENTS ?s') a' = Some info \<longrightarrow> 0 \<le> total_cores info"
      using inv unfolding ledger_inv_def by (simp add: ags)
    show ?thesis unfolding ledger_inv_def using i1 i2 i3 i4 by blast
  qed
qed

lemma ledger_inv_cong:
  "ledger_inv s \<Longrightarrow> AGENTS s' = AGENTS s \<Longrightarrow> CORE_MAP s' = CORE_MAP s \<Longrightarrow>
   ALLOCATIONS s' = ALLOCATIONS s \<Longrightarrow> ledger_inv s'"
  by (simp add: ledger_inv_def)

lemma distinct_py_take: "distinct xs \<Longrightarrow> distinct (py_take n xs)"
  by (simp add: py_take_def)

lemma steal_and_assign_no_steal:
  "map_of (AGENTS s) (r_vm req) = Some info \<Longrightarrow> \<not> steals e req s \<Longrightarrow>
     steal_and_assign e req sl (free_slots_of (CORE_MAP s) info) s = s"
  by (auto simp: steal_and_assign_def steals_def attempt_plan_def split: prod.splits)

lemma ledger_inv_attempt:
  assumes inv: "ledger_inv s" and ns: "\<not> steals e req s"
  shows "ledger_inv (schedule_request e req s)"
proof (cases "map_of (AGENTS s) (r_vm req)")
  case None
  then have "schedule_request e req s
      = (push_activity (Act_drop (r_job req) (r_vm req)) s)\<lparr>PENDING := remove1 req (PENDING s)\<rparr>"
    by (simp add: schedule_request_def)
  then show ?thesis using inv by (intro ledger_inv_cong [OF inv]) simp_all
next
  case (Some info)
  let ?fs = "free_slots_of (CORE_MAP s) info"
  let ?pick = "py_take (r_need req) ?fs"
  let ?r = "assign_and_record e (r_vm req) (r_job req) (r_pid req) ?pick s"
  have sub: "set ?pick \<subseteq> set ?fs" by (rule set_py_take)
  have dp: "distinct ?pick" by (simp add: distinct_py_take sorted_free_slots)
  have st: "steal_and_assign e req (agent_slots_of info) ?fs s = s"
    using Some ns by (rule steal_and_assign_no_steal)
  have inv': "ledger_inv (snd ?r)"
    using inv Some sub dp by (rule ledger_inv_assign)
  show ?thesis
  proof (cases "r_need req + RESERVE_BUFFER \<le> int (length ?fs)")
    case False
    then have "schedule_request e req s = s"
      using Some st by (simp add: schedule_request_def Let_def)
    then show ?thesis using inv by simp
  next
    case True
    obtain ok s1 where r: "?r = (ok, s1)" by (cases ?r)
    show ?thesis
    proof (cases ok)
      case False
      then have "s1 = s"
        using r assign_and_record_cases [of e "r_vm req" "r_job req" "r_pid req" ?pick s] by auto
      then have "schedule_request e req s = s"
        using Some True False st r by (simp add: schedule_request_def Let_def)
      then show ?thesis using inv by simp
    next
      case ok: True
      have "schedule_request e req s
          = (push_activity (Act_allocated (r_job req) (r_vm req) ?pick) (snd ?r))
              \<lparr>PENDING := remove1 req (PENDING (snd ?r))\<rparr>"
        using Some True ok r by (simp add: schedule_request_def Let_def)
      then show ?thesis by (intro ledger_inv_cong [OF inv']) simp_all
    qed
  qed
qed

lemma stable_run_inv: "stable_run s \<Longrightarrow> ledger_inv s"
proof (induction rule: stable_run.induct)
  case start
  show ?case by (rule ledger_inv_init)
next
  case (registered s total_opt a offset_opt now ep)
  then show ?case by (intro ledger_inv_register) auto
next
  case (requested s now v j p n)
  then show ?case by (simp add: ledger_inv_request)
next
  case (completed s e v j)
  then show ?case by (simp add: ledger_inv_complete)
next
  case (attempted s e req)
  then show ?case by (simp add: ledger_inv_attempt)
qed

lemma sum_lengths_card:
  assumes "distinct (map fst al)"
    and "\<And>k cores. (k, cores) \<in> set al \<Longrightarrow> distinct cores \<and> (\<forall>g \<in> set cores. f g = Some (Some k))"
  shows "sum_list (map (\<lambda>(k, cores). int (length cores)) al)
     = int (card (\<Union>(k, cores) \<in> set al. set cores))"
  using assms
proof (induction al)
  case Nil
  then show ?case by simp
next
  case (Cons x al)
  obtain k c where x: "x = (k, c)" by (cases x)
  let ?U = "\<Union>(k, cores) \<in> set al. set cores"
  have ih: "sum_list (map (\<lambda>(k, cores). int (length cores)) al) = int (card ?U)"
    using Cons by auto
  have dc: "distinct c" and bc: "\<forall>g \<in> set c. f g = Some (Some k)"
    using Cons.prems(2) [of k c] x by auto
  have knot: "k \<notin> fst ` set al" using Cons.prems(1) x by auto
  have disj: "set c \<inter> ?U = {}"
  proof (rule ccontr)
    assume "set c \<inter> ?U \<noteq> {}"
    then obtain g k' c' where g: "g \<in> set c" "(k', c') \<in> set al" "g \<in> set c'" by auto
    have "f g = Some (Some k')" using Cons.prems(2) [of k' c'] g by auto
    then have "k' = k" using bc g(1) by auto
    then show False using knot g(2) by force
  qed
  have fin: "finite ?U" by auto
  have "card (set c \<union> ?U) = card (set c) + card ?U"
    using disj fin by (simp add: card_Un_disjoint)
  then have "int (card (set c \<union> ?U)) = int (length c) + int (card ?U)"
    using dc by (simp add: distinct_card)
  then show ?case using ih x by simp
qed

lemma length_agent_slots:
  "0 \<le> total_cores info \<Longrightarrow> int (length (agent_slots_of info)) = total_cores info"
  by (simp add: agent_slots_of_def py_range_def)

lemma ledger_inv_capacity:
  assumes inv: "ledger_inv s" and ag: "map_of (AGENTS s) a = Some info"
  shows "allocated_sum s a \<le> total_cores info"
proof -
  let ?L = "filter (\<lambda>(k, cores). fst k = a) (ALLOCATIONS s)"
  let ?U = "\<Union>(k, cores) \<in> set ?L. set cores"
  let ?f = "map_of (CORE_MAP s)"
  have dA: "distinct (map fst (ALLOCATIONS s))" using inv by (simp add: ledger_inv_def)
  have dL: "distinct (map fst ?L)" using dA by (rule distinct_map_filter)
  have ent: "distinct cores \<and> (\<forall>g \<in> set cores. ?f g = Some (Some k)) \<and> fst k = a"
    if "(k, cores) \<in> set ?L" for k cores
  proof -
    have "(k, cores) \<in> set (ALLOCATIONS s)" and "fst k = a" using that by auto
    then have "map_of (ALLOCATIONS s) k = Some cores" using dA by simp
    then show ?thesis using inv \<open>fst k = a\<close> unfolding ledger_inv_def by blast
  qed
  have "sum_list (map (\<lambda>(k, cores). int (length cores)) ?L) = int (card ?U)"
  proof (rule sum_lengths_card [where f = ?f])
    show "distinct (map fst ?L)" by (rule dL)
  next
    fix k cores assume "(k, cores) \<in> set ?L"
    from ent [OF this] show "distinct cores \<and> (\<forall>g \<in> set cores. ?f g = Some (Some k))"
      by blast
  qed
  then have sum: "allocated_sum s a = int (card ?U)"
    by (simp only: allocated_sum_def)
  have sub: "?U \<subseteq> set (agent_slots_of info)"
  proof
    fix g assume "g \<in> ?U"
    then obtain k cores where kc: "(k, cores) \<in> set ?L" "g \<in> set cores" by auto
    from ent [OF kc(1)] kc(2) have b: "?f g = Some (Some k)" and ka: "fst k = a" by auto
    obtain j where k: "k = (a, j)" using ka by (cases k) auto
    have "\<exists>info'. map_of (AGENTS s) a = Some info' \<and> g \<in> set (agent_slots_of info')"
      using inv b k unfolding ledger_inv_def by blast
    then obtain info' where "map_of (AGENTS s) a = Some info'" "g \<in> set (agent_slots_of info')"
      by blast
    then show "g \<in> set (agent_slots_of info)" using ag by simp
  qed
  have "card ?U \<le> card (set (agent_slots_of info))" using sub by (simp add: card_mono)
  also have "\<dots> = length (agent_slots_of info)"
    by (simp add: distinct_card sorted_agent_slots)
  finally have "int (card ?U) \<le> int (length (agent_slots_of info))" by simp
  moreover have "0 \<le> total_cores info" using inv ag unfolding ledger_inv_def by blast
  ultimately show ?thesis using sum by (simp add: length_agent_slots)
qed

lemma train_no_steal: "\<not> steals env_train train_request train_queued"
proof -
  have "map_of (AGENTS train_queued) (r_vm train_request)
      = Some \<lparr>total_cores = 4, endpoint = Some ''http://10.0.0.2:6001'', last_seen = 0, offset = 0\<rparr>"
    by (simp add: train_queued_eq train_request_def)
  moreover have "free_slots_of (CORE_MAP train_queued)
        \<lparr>total_cores = 4, endpoint = Some ''http://10.0.0.2:6001'', last_seen = 0, offset = 0\<rparr>
       = [0, 1, 2, 3]"
    by (simp add: train_queued_eq free_slots_of_def agent_slots_of_def py_range_def upto.simps
        is_free_def)
  moreover have "build_candidates env_train train_queued = []"
    by (simp add: build_candidates_def agent_candidates_def row_candidates_def train_queued_eq
        env_train_def train_row_def idxs_of_def MIN_CORES_PER_JOB_def Let_def)
  ultimately show ?thesis
    by (simp add: steals_def attempt_plan_def plan_steal_def train_request_def)
qed

lemma stable_run_train_admitted: "stable_run train_admitted"
proof -
  have "stable_run vm1_registered"
    unfolding vm1_registered_def
    by (rule stable_run.registered [OF stable_run.start]) (simp_all add: init_def)
  then have "stable_run train_queued"
    unfolding train_queued_def by (rule stable_run.requested)
  then have "stable_run (schedule_request env_train train_request train_queued)"
    using train_no_steal by (rule stable_run.attempted)
  moreover have "train_admitted = schedule_request env_train train_request train_queued"
    by (simp add: train_admitted_def scheduler_pass_def train_queued_eq)
  ultimately show ?thesis by simp
qed








subsection \<open>The used-core estimator\<close>




subsection \<open>Registration and heartbeats\<close>

text \<open>
  Claim C3 says that a heartbeat, a registration call carrying only the agent's name, leaves
  the recorded \<open>total_cores\<close>, \<open>core_offset\<close> and \<open>endpoint\<close> as they were. The handler
  writes a whole new record with the defaults of the missing fields: after \<^verbatim>\<open>vm1\<close> has
  registered with 4 cores, offset 0 and an endpoint, its heartbeat leaves it with 1 core and
  no endpoint.
\<close>

theorem heartbeat_overwrites_agent_record:
  "map_of (AGENTS vm1_registered) ''vm1''
     = Some \<lparr>total_cores = 4, endpoint = Some ''http://10.0.0.2:6001'', last_seen = 0,
             offset = 0\<rparr>
   \<and> map_of (AGENTS heartbeat_scenario) ''vm1''
     = Some \<lparr>total_cores = 1, endpoint = None, last_seen = 10, offset = 0\<rparr>"
  by (simp add: heartbeat_scenario_def vm1_registered_def register_def init_def Let_def)

subsection \<open>Completion\<close>

text \<open>
  Claim C4. In any state, \<open>complete\<close> on a key that is in the allocation table succeeds
  with the key's indices, leaves each of them Free and every other slot as it was, and
  removes the key from the allocation table and from the requested-count table. A second
  \<open>complete\<close> on the same key (whatever the agent answers then) fails with \<open>NotAllocated\<close>
  and returns the state unchanged.
\<close>

theorem complete_twice:
  "map_of (ALLOCATIONS s) (v, j) = Some cores \<Longrightarrow>
     (case complete e v j s of
        (r1, s1) \<Rightarrow>
          r1 = Inr cores
          \<and> (\<forall>c \<in> set cores. map_of (CORE_MAP s1) c = Some None)
          \<and> (\<forall>g. g \<notin> set cores \<longrightarrow> map_of (CORE_MAP s1) g = map_of (CORE_MAP s) g)
          \<and> map_of (ALLOCATIONS s1) (v, j) = None
          \<and> map_of (JOB_REQUEST s1) (v, j) = None
          \<and> complete e' v j s1 = (Inl NotAllocated, s1))"
  by (simp add: complete_def Let_def map_of_set_cores delete_conv')

theorem complete_twice_witness:
  "map_of (ALLOCATIONS two_core_ledger) (''vm1'', ''train'') = Some [0, 1]
   \<and> fst (complete env_train ''vm1'' ''train'' two_core_ledger) = Inr [0, 1]
   \<and> map_of (CORE_MAP (snd (complete env_train ''vm1'' ''train'' two_core_ledger))) 1 = Some None
   \<and> complete env_unreachable ''vm1'' ''train''
        (snd (complete env_train ''vm1'' ''train'' two_core_ledger))
      = (Inl NotAllocated, snd (complete env_train ''vm1'' ''train'' two_core_ledger))"
proof -
  have h: "map_of (ALLOCATIONS two_core_ledger) (''vm1'', ''train'') = Some [0, 1]"
    by (simp add: two_core_ledger_def)
  show ?thesis
    using h complete_twice [where e = env_train and e' = env_unreachable, OF h]
    by (simp add: case_prod_beta)
qed

text \<open>
  Claim C10. When the key is in the allocation table, \<open>complete\<close> answers with success and
  the key's indices, leaves each of those slots Free and every other slot as it was, removes
  the key from the allocation table and from the requested-count table and keeps every
  other entry of both, and leaves agents and pending queue alone. All of this holds for
  every environment, and reply and state are the same for any two environments: whether
  the agent's release call returns, fails or cannot be made has no part in it.
\<close>

theorem complete_ignores_release_outcome:
  "map_of (ALLOCATIONS s) (v, j) = Some cores \<Longrightarrow>
     (case complete e v j s of
        (r, s1) \<Rightarrow>
          r = Inr cores
          \<and> (\<forall>c \<in> set cores. map_of (CORE_MAP s1) c = Some None)
          \<and> (\<forall>g. g \<notin> set cores \<longrightarrow> map_of (CORE_MAP s1) g = map_of (CORE_MAP s) g)
          \<and> map_of (ALLOCATIONS s1) = (map_of (ALLOCATIONS s))((v, j) := None)
          \<and> map_of (JOB_REQUEST s1) = (map_of (JOB_REQUEST s))((v, j) := None)
          \<and> AGENTS s1 = AGENTS s \<and> PENDING s1 = PENDING s)
     \<and> complete e v j s = complete e' v j s"
  by (simp add: complete_def Let_def map_of_set_cores delete_conv')

theorem complete_ignores_release_outcome_witness:
  "map_of (ALLOCATIONS two_core_ledger) (''vm1'', ''train'') = Some [0, 1]
   \<and> \<not> complete_release env_unreachable two_core_ledger ''vm1'' ''train''
   \<and> fst (complete env_unreachable ''vm1'' ''train'' two_core_ledger) = Inr [0, 1]
   \<and> map_of (CORE_MAP (snd (complete env_unreachable ''vm1'' ''train'' two_core_ledger))) 0
       = Some None
   \<and> map_of (CORE_MAP (snd (complete env_unreachable ''vm1'' ''train'' two_core_ledger))) 1
       = Some None
   \<and> map_of (ALLOCATIONS (snd (complete env_unreachable ''vm1'' ''train'' two_core_ledger)))
        (''vm1'', ''train'') = None
   \<and> complete env_unreachable ''vm1'' ''train'' two_core_ledger
       = complete env_train ''vm1'' ''train'' two_core_ledger"
proof -
  have h: "map_of (ALLOCATIONS two_core_ledger) (''vm1'', ''train'') = Some [0, 1]"
    by (simp add: two_core_ledger_def)
  have r: "\<not> complete_release env_unreachable two_core_ledger ''vm1'' ''train''"
    by (simp add: complete_release_def two_core_ledger_def env_unreachable_def)
  note t = complete_ignores_release_outcome [where e = env_unreachable and e' = env_train, OF h]
  have b: "complete env_unreachable ''vm1'' ''train'' two_core_ledger
       = complete env_train ''vm1'' ''train'' two_core_ledger"
    using t by (rule conjunct2)
  have a: "fst (complete env_unreachable ''vm1'' ''train'' two_core_ledger) = Inr [0, 1]
     \<and> map_of (CORE_MAP (snd (complete env_unreachable ''vm1'' ''train'' two_core_ledger))) 0
       = Some None
     \<and> map_of (CORE_MAP (snd (complete env_unreachable ''vm1'' ''train'' two_core_ledger))) 1
       = Some None
     \<and> map_of (ALLOCATIONS (snd (complete env_unreachable ''vm1'' ''train'' two_core_ledger)))
        (''vm1'', ''train'') = None"
    using t [THEN conjunct1] by (simp add: case_prod_beta)
  show ?thesis using h r a b by blast
qed

subsection \<open>Request admission\<close>

text \<open>
  Claim C8. In any state, a request that names an agent absent from the agent directory
  (agents are never removed, so: an agent that never registered) is answered with
  \<open>UnknownAgent\<close> and the whole controller state is returned unchanged. For a registered agent
  the request is answered as queued, exactly one entry is appended to the pending queue,
  the requested count is recorded under the key (agent, job), and agents, core map and
  allocations stay as they were.
\<close>

theorem request_alloc_unknown_or_queued:
  "(map_of (AGENTS s) v = None \<longrightarrow> request_alloc now v j p n s = (Inl UnknownAgent, s))
   \<and> (map_of (AGENTS s) v \<noteq> None \<longrightarrow>
        (case request_alloc now v j p n s of
           (r, s') \<Rightarrow>
             r = Inr ()
             \<and> PENDING s' = PENDING s @ [\<lparr>r_vm = v, r_job = j, r_pid = p,
                    r_need = (case n of None \<Rightarrow> 1 | Some x \<Rightarrow> x), r_ts = now\<rparr>]
             \<and> map_of (JOB_REQUEST s')
                 = (map_of (JOB_REQUEST s))((v, j) \<mapsto> (case n of None \<Rightarrow> 1 | Some x \<Rightarrow> x))
             \<and> AGENTS s' = AGENTS s \<and> CORE_MAP s' = CORE_MAP s
             \<and> ALLOCATIONS s' = ALLOCATIONS s))"
  by (auto simp: request_alloc_def Let_def update_conv')

theorem request_alloc_witness:
  "map_of (AGENTS two_core_ledger) ''vm9'' = None
   \<and> request_alloc 5 ''vm9'' ''infer'' 101 (Some 1) two_core_ledger
       = (Inl UnknownAgent, two_core_ledger)
   \<and> map_of (AGENTS two_core_ledger) ''vm1'' \<noteq> None
   \<and> fst (request_alloc 5 ''vm1'' ''infer'' 101 (Some 1) two_core_ledger) = Inr ()
   \<and> PENDING (snd (request_alloc 5 ''vm1'' ''infer'' 101 (Some 1) two_core_ledger))
       = [\<lparr>r_vm = ''vm1'', r_job = ''infer'', r_pid = 101, r_need = 1, r_ts = 5\<rparr>]"
proof -
  have u: "map_of (AGENTS two_core_ledger) ''vm9'' = None"
    and k: "map_of (AGENTS two_core_ledger) ''vm1'' \<noteq> None"
    and q: "PENDING two_core_ledger = []"
    by (simp_all add: two_core_ledger_def)
  show ?thesis
    using u k q
      request_alloc_unknown_or_queued [of two_core_ledger "''vm9''" 5 "''infer''" 101 "Some 1"]
      request_alloc_unknown_or_queued [of two_core_ledger "''vm1''" 5 "''infer''" 101 "Some 1"]
    by (simp add: case_prod_beta)
qed

subsection \<open>The agent's allocate handler\<close>

text \<open>
  Claim C9. \<open>allocate job pid cores\<close> either succeeds, and then the affinity mask of \<open>pid\<close>
  is exactly the set of \<open>cores\<close>, the job table holds \<open>{pid, cores}\<close> under \<open>job\<close> and every
  other job's entry is as before; or it fails with \<open>BindError\<close> (the operating system
  refused the pid or the mask) and the agent's state, job table included, is unchanged.
\<close>

theorem allocate_all_or_nothing:
  "(os_accepts p (set cores) \<longrightarrow>
      (case allocate os_accepts j p cores a of
         (r, a') \<Rightarrow>
           r = Inr (j, cores)
           \<and> affinity a' p = Some (set cores)
           \<and> map_of (jobs a') j = Some \<lparr>j_pid = p, j_cores = cores\<rparr>
           \<and> (\<forall>j'. j' \<noteq> j \<longrightarrow> map_of (jobs a') j' = map_of (jobs a) j')))
   \<and> (\<not> os_accepts p (set cores) \<longrightarrow>
        allocate os_accepts j p cores a = (Inl BindError, a))"
  by (simp add: allocate_def sched_setaffinity_def update_conv')

theorem allocate_all_or_nothing_witness:
  "os_accepts_all 100 (set [0, 1])
   \<and> fst (allocate os_accepts_all ''train'' 100 [0, 1] idle_agent) = Inr (''train'', [0, 1])
   \<and> map_of (jobs (snd (allocate os_accepts_all ''train'' 100 [0, 1] idle_agent))) ''train''
       = Some \<lparr>j_pid = 100, j_cores = [0, 1]\<rparr>
   \<and> \<not> os_refuses_all 100 (set [0, 1])
   \<and> allocate os_refuses_all ''train'' 100 [0, 1] idle_agent = (Inl BindError, idle_agent)"
  using allocate_all_or_nothing [of os_accepts_all 100 "[0, 1]" "''train''" idle_agent]
    allocate_all_or_nothing [of os_refuses_all 100 "[0, 1]" "''train''" idle_agent]
  by (simp add: os_accepts_all_def os_refuses_all_def case_prod_beta)

subsection \<open>Direct admission\<close>

text \<open>
  Claim C6 as stated (for any pending request with at least \<open>need + reserve_buffer\<close> free
  slots, exactly the \<open>need\<close> lowest free indices are picked) fails for a request whose
  \<^verbatim>\<open>cores_requested\<close> is negative: the handler queues it unchecked, the comparison
  \<^verbatim>\<open>len(free_slots) >= need\<close> holds, and the slice \<^verbatim>\<open>free_slots[:need]\<close> drops the last
  free index instead of taking none. With \<open>need = -1\<close> and the four slots of \<^verbatim>\<open>vm1\<close> free,
  the pass binds the three slots 0, 1, 2.
\<close>

theorem direct_admission_negative_need:
  "PENDING neg_queued = [neg_request]
   \<and> r_need neg_request = - 1
   \<and> free_slots_of (CORE_MAP neg_queued)
        \<lparr>total_cores = 4, endpoint = Some ''http://10.0.0.2:6001'', last_seen = 0, offset = 0\<rparr>
       = [0, 1, 2, 3]
   \<and> ALLOCATIONS (scheduler_pass (\<lambda>i. env_train) neg_queued)
       = [((''vm1'', ''train''), [0, 1, 2])]"
  by (simp add: neg_queued_def vm1_registered_eq request_alloc_def scheduler_pass_def
      schedule_request_def agent_slots_of_def free_slots_of_def py_range_def upto.simps
      is_free_def RESERVE_BUFFER_def py_take_def assign_and_record_def env_train_def
      push_activity_def neg_request_def Let_def)

text \<open>
  Claim C6, amended: for a request with \<open>need \<ge> 0\<close>. If the owning agent has at least
  \<open>need + RESERVE_BUFFER\<close> free slots and the agent's bind call succeeds, the scheduling
  attempt picks the first \<open>need\<close> free indices of the agent's range: exactly \<open>need\<close> of them,
  in ascending order, each lower than every free index left out. It marks them Bound to
  (agent, job) and leaves every other slot alone, appends them to the key's allocation (or
  creates it), and removes the request from the pending queue. In the scenario (\<^verbatim>\<open>vm1\<close> at
  offset 0 with 4 free cores, a request for 4) the allocation of (vm1, train) is
  \<open>[0, 1, 2, 3]\<close>.
\<close>

theorem direct_admission:
  assumes agent: "map_of (AGENTS s) (r_vm req) = Some info"
    and ep: "endpoint info = Some ep"
    and need: "0 \<le> r_need req"
    and enough: "r_need req + RESERVE_BUFFER \<le> int (length (free_slots_of (CORE_MAP s) info))"
    and bind: "allocate_rpc e ep (r_job req) (r_pid req)
                 (take (nat (r_need req)) (free_slots_of (CORE_MAP s) info))"
  shows "(let free = free_slots_of (CORE_MAP s) info;
              pick = take (nat (r_need req)) free;
              s' = schedule_request e req s
          in int (length pick) = r_need req \<and> sorted pick \<and> distinct pick
             \<and> set pick \<subseteq> set free
             \<and> (\<forall>g \<in> set free. g \<notin> set pick \<longrightarrow> (\<forall>p \<in> set pick. p < g))
             \<and> (\<forall>c \<in> set pick. map_of (CORE_MAP s') c = Some (Some (r_vm req, r_job req)))
             \<and> (\<forall>g. g \<notin> set pick \<longrightarrow> map_of (CORE_MAP s') g = map_of (CORE_MAP s) g)
             \<and> map_of (ALLOCATIONS s') (r_vm req, r_job req)
                 = Some ((case map_of (ALLOCATIONS s) (r_vm req, r_job req) of
                            None \<Rightarrow> [] | Some old \<Rightarrow> old) @ pick)
             \<and> PENDING s' = remove1 req (PENDING s))
         \<and> map_of (ALLOCATIONS train_admitted) (''vm1'', ''train'') = Some [0, 1, 2, 3]"
proof -
  let ?free = "free_slots_of (CORE_MAP s) info"
  let ?pick = "take (nat (r_need req)) ?free"
  have len: "int (length ?pick) = r_need req"
    using need enough by (simp add: RESERVE_BUFFER_def min_def, linarith)
  have srt: "sorted ?pick" and dst: "distinct ?pick"
    by (simp_all add: sorted_free_slots sorted_wrt_take)
  have sub: "set ?pick \<subseteq> set ?free" by (rule set_take_subset)
  have low: "\<forall>g \<in> set ?free. g \<notin> set ?pick \<longrightarrow> (\<forall>p \<in> set ?pick. p < g)"
    using take_lowest [OF sorted_free_slots] by blast
  have pt: "py_take (r_need req) ?free = ?pick" using need by (simp add: py_take_def)
  have run: "schedule_request e req s =
      (push_activity (Act_allocated (r_job req) (r_vm req) ?pick)
        (s\<lparr>CORE_MAP := set_cores (Some (r_vm req, r_job req)) ?pick (CORE_MAP s),
           ALLOCATIONS := AList.update (r_vm req, r_job req)
              ((case map_of (ALLOCATIONS s) (r_vm req, r_job req) of None \<Rightarrow> [] | Some old \<Rightarrow> old)
                 @ ?pick) (ALLOCATIONS s),
           JOB_REQUEST := AList.update (r_vm req, r_job req)
              (case map_of (JOB_REQUEST s) (r_vm req, r_job req) of
                 None \<Rightarrow> int (length ?pick) | Some n \<Rightarrow> n) (JOB_REQUEST s)\<rparr>))
        \<lparr>PENDING := remove1 req (PENDING s)\<rparr>"
    using agent ep enough bind
    by (simp add: schedule_request_def Let_def pt assign_and_record_def)
  have scen: "map_of (ALLOCATIONS train_admitted) (''vm1'', ''train'') = Some [0, 1, 2, 3]"
    by (simp add: train_admitted_eq)
  show ?thesis
    unfolding Let_def
    using len srt dst sub low scen
    by (simp add: run map_of_set_cores update_conv')
qed

theorem direct_admission_witness:
  "map_of (AGENTS train_queued) (r_vm train_request)
     = Some \<lparr>total_cores = 4, endpoint = Some ''http://10.0.0.2:6001'', last_seen = 0,
             offset = 0\<rparr>
   \<and> 0 \<le> r_need train_request
   \<and> free_slots_of (CORE_MAP train_queued)
        \<lparr>total_cores = 4, endpoint = Some ''http://10.0.0.2:6001'', last_seen = 0, offset = 0\<rparr>
       = [0, 1, 2, 3]
   \<and> map_of (ALLOCATIONS (schedule_request env_train train_request train_queued))
        (''vm1'', ''train'') = Some [0, 1, 2, 3]
   \<and> PENDING (schedule_request env_train train_request train_queued) = []"
proof -
  let ?info = "\<lparr>total_cores = 4, endpoint = Some ''http://10.0.0.2:6001'', last_seen = 0,
                 offset = (0::int)\<rparr>"
  have a: "map_of (AGENTS train_queued) (r_vm train_request) = Some ?info"
    by (simp add: train_queued_eq train_request_def)
  have b: "endpoint ?info = Some ''http://10.0.0.2:6001''" by simp
  have c: "0 \<le> r_need train_request" by (simp add: train_request_def)
  have f: "free_slots_of (CORE_MAP train_queued) ?info = [0, 1, 2, 3]"
    by (simp add: train_queued_eq free_slots_of_def agent_slots_of_def py_range_def upto.simps
        is_free_def)
  have d: "r_need train_request + RESERVE_BUFFER
      \<le> int (length (free_slots_of (CORE_MAP train_queued) ?info))"
    by (simp add: f train_request_def RESERVE_BUFFER_def)
  have g: "allocate_rpc env_train ''http://10.0.0.2:6001'' (r_job train_request)
      (r_pid train_request)
      (take (nat (r_need train_request)) (free_slots_of (CORE_MAP train_queued) ?info))"
    by (simp add: env_train_def)
  have al: "ALLOCATIONS train_queued = []" and pe: "PENDING train_queued = [train_request]"
    by (simp_all add: train_queued_eq)
  show ?thesis
    using a c f direct_admission [OF a b c d g]
    by (simp add: Let_def f train_request_def al pe)
qed

subsection \<open>Stealing\<close>

text \<open>
  Claim C1 says that a slot is Bound to (a, j) exactly when it appears in the allocation of
  (a, j), so that no index is in two allocations. The steal path frees the victim's slot in
  \<^verbatim>\<open>CORE_MAP\<close> and narrows the victim on its agent, but never removes the index from
  \<^verbatim>\<open>ALLOCATIONS\<close>, which \<^verbatim>\<open>complete\<close> and \<^verbatim>\<open>_assign_and_record\<close> keep in step with the
  core map. In the specification's second scenario the slot 3 ends up Bound to
  (vm1, infer) while it is still listed in the allocation of (vm1, train), and it is listed
  in both allocations.
\<close>

theorem steal_leaves_allocation_stale:
  "map_of (CORE_MAP infer_admitted) 3 = Some (Some (''vm1'', ''infer''))
   \<and> map_of (ALLOCATIONS infer_admitted) (''vm1'', ''train'') = Some [0, 1, 2, 3]
   \<and> map_of (ALLOCATIONS infer_admitted) (''vm1'', ''infer'') = Some [3]"
  by (simp add: infer_admitted_eq)




subsection \<open>Capacity\<close>

text \<open>
  Claim C2 as stated (in every reachable state the allocations of an agent sum to at most
  its \<^verbatim>\<open>total_cores\<close>) fails: a registration call refreshes \<^verbatim>\<open>total_cores\<close> whatever the
  agent's jobs hold. After \<^verbatim>\<open>train\<close> was given the 4 cores of \<^verbatim>\<open>vm1\<close>, a registration of
  \<^verbatim>\<open>vm1\<close> with 2 cores leaves an allocation of size 4 against a total of 2.
\<close>

theorem capacity_exceeded_after_reregistration:
  "map_of (AGENTS shrunk) ''vm1''
     = Some \<lparr>total_cores = 2, endpoint = Some ''http://10.0.0.2:6001'', last_seen = 20, offset = 0\<rparr>
   \<and> map_of (ALLOCATIONS shrunk) (''vm1'', ''train'') = Some [0, 1, 2, 3]
   \<and> allocated_sum shrunk ''vm1'' = 4
   \<and> \<not> allocated_sum shrunk ''vm1'' \<le> 2"
  by (simp add: shrunk_def register_def train_admitted_eq allocated_sum_def Let_def)

text \<open>
  Claim C2, amended: in every state of a run in which registrations carry a non-negative
  \<^verbatim>\<open>total_cores\<close> and never leave out a slot of the agent's earlier range, and in which no
  scheduling attempt frees a victim's slot, the sizes of the allocations of every
  registered agent sum to at most its \<^verbatim>\<open>total_cores\<close>. (What the sum is after a steal is
  not stated here; see claim C1.)
\<close>

theorem capacity_in_stable_runs:
  "stable_run s \<Longrightarrow> map_of (AGENTS s) a = Some info \<Longrightarrow> allocated_sum s a \<le> total_cores info"
  by (rule ledger_inv_capacity [OF stable_run_inv])

theorem capacity_in_stable_runs_witness:
  "stable_run train_admitted
   \<and> map_of (AGENTS train_admitted) ''vm1''
       = Some \<lparr>total_cores = 4, endpoint = Some ''http://10.0.0.2:6001'', last_seen = 0, offset = 0\<rparr>
   \<and> allocated_sum train_admitted ''vm1'' = 4
   \<and> allocated_sum train_admitted ''vm1'' \<le> 4"
proof -
  have ag: "map_of (AGENTS train_admitted) ''vm1''
       = Some \<lparr>total_cores = 4, endpoint = Some ''http://10.0.0.2:6001'', last_seen = 0, offset = 0\<rparr>"
    by (simp add: train_admitted_eq)
  have v: "allocated_sum train_admitted ''vm1'' = 4"
    by (simp add: train_admitted_eq allocated_sum_def)
  show ?thesis
    using capacity_in_stable_runs [OF stable_run_train_admitted ag] stable_run_train_admitted ag v by simp
qed

end
